theory Spec2Isabelle
  imports Main "HOL-Library.AList" "HOL-Library.Multiset"
begin

section \<open>Natac rules engine: the player ledger\<close>

text \<open>
  The JavaScript objects are modelled by value. Numbers are \<open>int\<close>: the engine only
  ever adds and subtracts integers.

  \<^verbatim>\<open>player.resources\<close> is an object literal with the five properties lumber, brick,
  ore, grain and wool; no property is ever added or deleted, so it is a record, read and
  written under a property name by \<open>getResource\<close> and \<open>setResource\<close>. A name
  that is not a property reads as \<open>None\<close> (\<^verbatim>\<open>undefined\<close>), and
  \<^verbatim>\<open>hasOwnProperty\<close> is \<open>getResource rs k \<noteq> None\<close>. \<open>resourceTypes\<close> is
  \<^verbatim>\<open>Object.keys(this.resources)\<close>, in insertion order.

  A piece (\<^verbatim>\<open>GamePiece\<close> and its subclasses) is identified by the number taken from the
  global counter \<^verbatim>\<open>GamePiece.nextId\<close>; its owner is the owning player's number
  (\<^verbatim>\<open>Player.nextId\<close>), and the vertex, edge or hex it stands on is the coordinate triple
  that keys that object in the board's maps.
\<close>

type_synonym coord = "int \<times> int \<times> nat"

datatype piece_type = Settlement | City | Road

record piece =
  piece_id :: nat
  owner :: nat
  ptype :: piece_type
  placedAt :: "coord option"

record resource_counts =
  lumber :: int
  brick :: int
  ore :: int
  grain :: int
  wool :: int

record player =
  pid :: nat
  name :: string
  settlements :: "piece list"
  cities :: "piece list"
  roads :: "piece list"
  settlementsRemaining :: int
  citiesRemaining :: int
  roadsRemaining :: int
  resources :: resource_counts
  victoryPointCards :: int
  victoryPoints :: int
  hasLongestRoad :: bool
  hasLargestArmy :: bool
  payForOverridden :: bool

text \<open>
  \<^verbatim>\<open>new Player(color, name)\<close>. The field \<open>payForOverridden\<close> records whether the
  instance's \<^verbatim>\<open>payFor\<close> has been replaced by \<^verbatim>\<open>() => true\<close>, which
  \<^verbatim>\<open>Game.placeSetupSettlement\<close> and \<^verbatim>\<open>Game.placeSetupRoad\<close> do.
\<close>

definition newPlayer :: "nat \<Rightarrow> string \<Rightarrow> player" where
  "newPlayer i n =
     \<lparr> pid = i, name = n, settlements = [], cities = [], roads = [],
       settlementsRemaining = 5, citiesRemaining = 4, roadsRemaining = 15,
       resources = \<lparr> lumber = 0, brick = 0, ore = 0, grain = 0, wool = 0 \<rparr>,
       victoryPointCards = 0, victoryPoints = 0,
       hasLongestRoad = False, hasLargestArmy = False, payForOverridden = False \<rparr>"

definition resourceTypes :: "string list" where
  "resourceTypes = [''lumber'', ''brick'', ''ore'', ''grain'', ''wool'']"

definition getResource :: "resource_counts \<Rightarrow> string \<Rightarrow> int option" where
  "getResource rs k =
     (if k = ''lumber'' then Some (lumber rs)
      else if k = ''brick'' then Some (brick rs)
      else if k = ''ore'' then Some (ore rs)
      else if k = ''grain'' then Some (grain rs)
      else if k = ''wool'' then Some (wool rs)
      else None)"

definition setResource :: "string \<Rightarrow> int \<Rightarrow> resource_counts \<Rightarrow> resource_counts" where
  "setResource k v rs =
     (if k = ''lumber'' then rs\<lparr>lumber := v\<rparr>
      else if k = ''brick'' then rs\<lparr>brick := v\<rparr>
      else if k = ''ore'' then rs\<lparr>ore := v\<rparr>
      else if k = ''grain'' then rs\<lparr>grain := v\<rparr>
      else if k = ''wool'' then rs\<lparr>wool := v\<rparr>
      else rs)"

definition addResources :: "string \<Rightarrow> int \<Rightarrow> player \<Rightarrow> player" where
  "addResources resourceType amount p =
     (case getResource (resources p) resourceType of
        Some v \<Rightarrow> p\<lparr>resources := setResource resourceType (v + amount) (resources p)\<rparr>
      | None \<Rightarrow> p)"

definition removeResources :: "string \<Rightarrow> int \<Rightarrow> player \<Rightarrow> bool \<times> player" where
  "removeResources resourceType amount p =
     (case getResource (resources p) resourceType of
        Some v \<Rightarrow>
          (True, p\<lparr>resources := setResource resourceType (max 0 (v - amount)) (resources p)\<rparr>)
      | None \<Rightarrow> (False, p))"

text \<open>\<^verbatim>\<open>Object.values(this.resources).reduce((sum, count) => sum + count, 0)\<close>\<close>

definition getTotalResources :: "player \<Rightarrow> int" where
  "getTotalResources p =
     0 + lumber (resources p) + brick (resources p) + ore (resources p)
       + grain (resources p) + wool (resources p)"

definition costs :: "(string \<times> (string \<times> int) list) list" where
  "costs =
     [(''road'', [(''lumber'', 1), (''brick'', 1)]),
      (''settlement'', [(''lumber'', 1), (''brick'', 1), (''wool'', 1), (''grain'', 1)]),
      (''city'', [(''ore'', 3), (''grain'', 2)]),
      (''developmentCard'', [(''ore'', 1), (''wool'', 1), (''grain'', 1)])]"

text \<open>
  \<^verbatim>\<open>this.resources[resource] < amount\<close> is false in JavaScript when the property is
  missing (\<^verbatim>\<open>undefined < amount\<close>), so a missing counter does not make a cost
  unaffordable.
\<close>

definition lacks :: "player \<Rightarrow> string \<times> int \<Rightarrow> bool" where
  "lacks p e = (case getResource (resources p) (fst e) of Some v \<Rightarrow> v < snd e | None \<Rightarrow> False)"

definition canAfford :: "string \<Rightarrow> player \<Rightarrow> bool" where
  "canAfford buildingType p =
     (case map_of costs buildingType of
        None \<Rightarrow> False
      | Some cost \<Rightarrow> \<not> list_ex (lacks p) cost)"

fun payEach :: "(string \<times> int) list \<Rightarrow> player \<Rightarrow> player" where
  "payEach [] p = p"
| "payEach (e # es) p = payEach es (snd (removeResources (fst e) (snd e) p))"

definition payFor :: "string \<Rightarrow> player \<Rightarrow> bool \<times> player" where
  "payFor buildingType p =
     (if payForOverridden p then (True, p)
      else if \<not> canAfford buildingType p then (False, p)
      else (case map_of costs buildingType of
              None \<Rightarrow> (True, p)
            | Some cost \<Rightarrow> (True, payEach cost p)))"

definition updateVictoryPoints :: "player \<Rightarrow> player" where
  "updateVictoryPoints p =
     p\<lparr>victoryPoints :=
         int (length (settlements p)) * 1 + int (length (cities p)) * 2
         + victoryPointCards p
         + (if hasLongestRoad p then 2 else 0)
         + (if hasLargestArmy p then 2 else 0)\<rparr>"

text \<open>
  \<^verbatim>\<open>Player.discardHalf\<close>. The inner \<^verbatim>\<open>for\<close> loop over the resource names is
  \<open>discardPass\<close>; the outer \<^verbatim>\<open>while (remaining > 0)\<close> is \<open>discardLoop\<close>, which does
  not return when a pass finds nothing to discard: its result is an option, and \<open>None\<close>
  is the loop that runs forever.
\<close>

fun discardPass :: "string list \<Rightarrow> player \<Rightarrow> int \<Rightarrow> string list \<Rightarrow> player \<times> int \<times> string list" where
  "discardPass [] p remaining discarded = (p, remaining, discarded)"
| "discardPass (k # ks) p remaining discarded =
     (if remaining \<le> 0 then (p, remaining, discarded)
      else if (case getResource (resources p) k of Some v \<Rightarrow> 0 < v | None \<Rightarrow> False)
      then discardPass ks (snd (removeResources k 1 p)) (remaining - 1) (discarded @ [k])
      else discardPass ks p remaining discarded)"

partial_function (option) discardLoop ::
  "string list \<Rightarrow> player \<Rightarrow> int \<Rightarrow> string list \<Rightarrow> (player \<times> string list) option" where
  "discardLoop ks p remaining discarded =
     (if 0 < remaining
      then (case discardPass ks p remaining discarded of
              (p', remaining', discarded') \<Rightarrow> discardLoop ks p' remaining' discarded')
      else Some (p, discarded))"

definition discardHalf :: "player \<Rightarrow> (player \<times> string list) option" where
  "discardHalf p =
     (let total = getTotalResources p in
      if total \<le> 7 then Some (p, [])
      else discardLoop resourceTypes p (total div 2) [])"

text \<open>Every counter of the player is at least zero.\<close>

definition nonneg :: "player \<Rightarrow> bool" where
  "nonneg p =
     (0 \<le> lumber (resources p) \<and> 0 \<le> brick (resources p) \<and> 0 \<le> ore (resources p)
      \<and> 0 \<le> grain (resources p) \<and> 0 \<le> wool (resources p))"

text \<open>A player holding 2 lumber and 9 ore, used to exercise the ledger.\<close>

definition ledgerExample :: player where
  "ledgerExample =
     (newPlayer 1 ''Alice'')\<lparr>resources := \<lparr> lumber = 2, brick = 0, ore = 9, grain = 0, wool = 0 \<rparr>\<rparr>"

section \<open>The board: hexes, vertices, edges and number tokens\<close>

text \<open>
  \<^verbatim>\<open>Board.hexes\<close>, \<^verbatim>\<open>Board.vertices\<close> and \<^verbatim>\<open>Board.edges\<close> are JavaScript \<^verbatim>\<open>Map\<close>s
  keyed by the strings \<^verbatim>\<open>"q,r"\<close> and \<^verbatim>\<open>"q,r,direction"\<close>. A \<^verbatim>\<open>Map\<close> iterates in
  insertion order, so each is an association list; the key is the pair or triple of
  numbers itself (the string is an injective rendering of it). \<open>AList.update\<close> is
  \<^verbatim>\<open>Map.set\<close> (a new key goes to the end), \<open>map_of\<close> is \<^verbatim>\<open>Map.get\<close>, and
  \<open>AList.map_entry\<close> mutates the object stored under a key.

  Objects refer to each other by key: a hex lists the keys of its vertices, edges and
  neighbours, a vertex the keys of its hexes and edges, and so on. A hex's
  \<^verbatim>\<open>numberToken\<close> is the token's position in \<^verbatim>\<open>Board.numberTokens\<close> together with its
  value, which never changes after construction; the token's own \<^verbatim>\<open>hex\<close> field lives
  in \<open>numberTokens\<close>. The coordinates \<^verbatim>\<open>q\<close>, \<^verbatim>\<open>r\<close>, \<^verbatim>\<open>direction\<close> of an object are its
  key. Rendering fields (\<^verbatim>\<open>mesh\<close>), \<^verbatim>\<open>port\<close> (always null) and the debug \<^verbatim>\<open>id\<close>
  strings are left out.
\<close>

type_synonym hexkey = "int \<times> int"

record hex =
  terrain :: string
  numberToken :: "(nat \<times> int) option"
  hasRobber :: bool
  hex_vertices :: "coord list"
  hex_edges :: "coord list"
  hex_neighbors :: "hexkey list"

record vertex =
  building :: "piece option"
  vertex_hexes :: "hexkey list"
  vertex_edges :: "coord list"
  adjacentVertices :: "coord list"

record edge =
  road :: "piece option"
  edge_hexes :: "hexkey list"
  edge_vertices :: "coord list"
  adjacentEdges :: "coord list"

record token =
  token_value :: int
  token_hex :: "hexkey option"

record board =
  hexes :: "(hexkey \<times> hex) list"
  vertices :: "(coord \<times> vertex) list"
  edges :: "(coord \<times> edge) list"
  numberTokens :: "token list"
  robber_hex :: "hexkey option"
  isGenerated :: bool

definition newHex :: "string \<Rightarrow> hex" where
  "newHex t = \<lparr> terrain = t, numberToken = None, hasRobber = False,
                hex_vertices = [], hex_edges = [], hex_neighbors = [] \<rparr>"

definition newVertex :: vertex where
  "newVertex = \<lparr> building = None, vertex_hexes = [], vertex_edges = [], adjacentVertices = [] \<rparr>"

definition newEdge :: edge where
  "newEdge = \<lparr> road = None, edge_hexes = [], edge_vertices = [], adjacentEdges = [] \<rparr>"

definition newBoard :: board where
  "newBoard = \<lparr> hexes = [], vertices = [], edges = [], numberTokens = [],
                robber_hex = None, isGenerated = False \<rparr>"

subsection \<open>Hex\<close>

definition canProduceResources :: "hex \<Rightarrow> bool" where
  "canProduceResources h =
     (terrain h \<noteq> ''desert'' \<and> terrain h \<noteq> ''sea'' \<and> numberToken h \<noteq> None)"

definition resourceMap :: "(string \<times> string) list" where
  "resourceMap = [(''forest'', ''lumber''), (''hills'', ''brick''), (''mountains'', ''ore''),
                  (''fields'', ''grain''), (''pasture'', ''wool'')]"

definition getResourceType :: "hex \<Rightarrow> string option" where
  "getResourceType h = map_of resourceMap (terrain h)"

text \<open>
  The dice roll is \<open>None\<close> when the caller passes no argument (\<^verbatim>\<open>undefined\<close>), which
  is never \<^verbatim>\<open>===\<close> a token's value.
\<close>

definition shouldProduce :: "hex \<Rightarrow> int option \<Rightarrow> bool" where
  "shouldProduce h diceRoll =
     (canProduceResources h
      \<and> (case numberToken h of Some tk \<Rightarrow> Some (snd tk) = diceRoll | None \<Rightarrow> False)
      \<and> \<not> hasRobber h)"

subsection \<open>NumberToken\<close>

definition isHighProbability :: "int \<Rightarrow> bool" where
  "isHighProbability v = (v = 6 \<or> v = 8)"

definition createStandardSet :: "token list" where
  "createStandardSet =
     map (\<lambda>v. \<lparr> token_value = v, token_hex = None \<rparr>)
       [2, 3, 3, 4, 4, 5, 5, 6, 6, 8, 8, 9, 9, 10, 10, 11, 11, 12]"

text \<open>
  \<^verbatim>\<open>token.placeOnHex(hex)\<close> for the token at position \<open>ti\<close> and the hex under \<open>hk\<close>:
  the token's previous hex, if any, loses its token; then the two are bound to each other.
\<close>

definition placeOnHex :: "nat \<Rightarrow> hexkey \<Rightarrow> board \<Rightarrow> board" where
  "placeOnHex ti hk b =
     (if ti < length (numberTokens b) then
        (let tk = numberTokens b ! ti;
             hs1 = (case token_hex tk of
                      Some old \<Rightarrow> AList.map_entry old (\<lambda>h. h\<lparr>numberToken := None\<rparr>) (hexes b)
                    | None \<Rightarrow> hexes b)
         in b\<lparr> numberTokens := (numberTokens b)[ti := tk\<lparr>token_hex := Some hk\<rparr>],
               hexes := AList.map_entry hk (\<lambda>h. h\<lparr>numberToken := Some (ti, token_value tk)\<rparr>) hs1 \<rparr>)
      else b)"

subsection \<open>Robber\<close>

definition robber_moveTo :: "hexkey \<Rightarrow> board \<Rightarrow> board" where
  "robber_moveTo hk b =
     (let hs1 = (case robber_hex b of
                   Some old \<Rightarrow> AList.map_entry old (\<lambda>h. h\<lparr>hasRobber := False\<rparr>) (hexes b)
                 | None \<Rightarrow> hexes b)
      in b\<lparr> robber_hex := Some hk,
            hexes := AList.map_entry hk (\<lambda>h. h\<lparr>hasRobber := True\<rparr>) hs1 \<rparr>)"

subsection \<open>Randomness\<close>

text \<open>
  \<^verbatim>\<open>Math.floor(Math.random() * n)\<close> is some index below \<open>n\<close>. The source of randomness
  is a list of draws given to the model, consumed from the front; a draw \<open>r\<close> gives
  the index \<open>r mod n\<close>, and an exhausted list gives 0. Every sequence of indices the
  program can draw is given by some list.
\<close>

definition rand :: "nat \<Rightarrow> nat list \<Rightarrow> nat \<times> nat list" where
  "rand n rs = (case rs of [] \<Rightarrow> (0, []) | r # rs' \<Rightarrow> (r mod n, rs'))"

text \<open>
  \<^verbatim>\<open>Board.shuffleArray\<close>: \<^verbatim>\<open>for (let i = length - 1; i > 0; i--)\<close> swaps position
  \<open>i\<close> with a random position \<open>j \<le> i\<close>.
\<close>

fun shuffleLoop :: "nat \<Rightarrow> 'a list \<Rightarrow> nat list \<Rightarrow> 'a list \<times> nat list" where
  "shuffleLoop 0 xs rs = (xs, rs)"
| "shuffleLoop (Suc i) xs rs =
     (case rand (Suc i + 1) rs of
        (j, rs') \<Rightarrow> shuffleLoop i (xs[Suc i := xs ! j, j := xs ! Suc i]) rs')"

definition shuffleArray :: "'a list \<Rightarrow> nat list \<Rightarrow> 'a list \<times> nat list" where
  "shuffleArray xs rs = shuffleLoop (length xs - 1) xs rs"

subsection \<open>Board: building the graph\<close>

definition hexLayout :: "hexkey list" where
  "hexLayout =
     [(-2, 0), (-1, -1), (0, -2),
      (-2, 1), (-1, 0), (0, -1), (1, -2),
      (-2, 2), (-1, 1), (0, 0), (1, -1), (2, -2),
      (-1, 2), (0, 1), (1, 0), (2, -1),
      (0, 2), (1, 1), (2, 0)]"

definition terrains :: "string list" where
  "terrains =
     [''forest'', ''forest'', ''forest'', ''forest'',
      ''pasture'', ''pasture'', ''pasture'', ''pasture'',
      ''fields'', ''fields'', ''fields'', ''fields'',
      ''hills'', ''hills'', ''hills'',
      ''mountains'', ''mountains'', ''mountains'',
      ''desert'']"

definition clear :: "board \<Rightarrow> board" where
  "clear b = b\<lparr> hexes := [], vertices := [], edges := [], numberTokens := [],
               robber_hex := None, isGenerated := False \<rparr>"

definition addHex :: "hexkey \<Rightarrow> hex \<Rightarrow> board \<Rightarrow> board" where
  "addHex k h b = b\<lparr>hexes := AList.update k h (hexes b)\<rparr>"

definition getHex :: "board \<Rightarrow> int \<Rightarrow> int \<Rightarrow> hex option" where
  "getHex b q r = map_of (hexes b) (q, r)"

text \<open>
  \<^verbatim>\<open>hexLayout.forEach((coord, index) => addHex(new Hex(coord.q, coord.r,
  shuffledTerrains[index])))\<close>. Reading past the end of the array gives
  \<^verbatim>\<open>undefined\<close>, a terrain that equals no terrain name.
\<close>

definition terrainAt :: "string list \<Rightarrow> nat \<Rightarrow> string" where
  "terrainAt ts i = (if i < length ts then ts ! i else ''undefined'')"

definition createHexes :: "string list \<Rightarrow> board \<Rightarrow> board" where
  "createHexes ts b =
     fold (\<lambda>(i, k). addHex k (newHex (terrainAt ts i))) (enumerate 0 hexLayout) b"

definition vertexOffsets :: "(int \<times> int \<times> nat) list" where
  "vertexOffsets = [(1, -1, 4), (1, 0, 5), (0, 1, 0), (-1, 1, 1), (-1, 0, 2), (0, -1, 3)]"

text \<open>
  A direction outside 0..5 has no offset (the JavaScript would throw on
  \<^verbatim>\<open>offset.q\<close>); the loops below only pass 0..5.
\<close>

definition getVertexCoords :: "int \<Rightarrow> int \<Rightarrow> nat \<Rightarrow> coord option" where
  "getVertexCoords hexQ hexR direction =
     (if direction < length vertexOffsets
      then (case vertexOffsets ! direction of (dq, dr, d) \<Rightarrow> Some (hexQ + dq, hexR + dr, d))
      else None)"

definition getEdgeCoords :: "int \<Rightarrow> int \<Rightarrow> nat \<Rightarrow> coord" where
  "getEdgeCoords hexQ hexR direction = (hexQ, hexR, direction)"

definition createVertexFor :: "hexkey \<Rightarrow> nat \<Rightarrow> board \<Rightarrow> board" where
  "createVertexFor hk direction b =
     (case getVertexCoords (fst hk) (snd hk) direction of
        None \<Rightarrow> b
      | Some key \<Rightarrow>
          (let vs = (if map_of (vertices b) key = None
                     then AList.update key newVertex (vertices b) else vertices b)
           in b\<lparr> hexes := AList.map_entry hk (\<lambda>h. h\<lparr>hex_vertices := hex_vertices h @ [key]\<rparr>) (hexes b),
                 vertices := AList.map_entry key (\<lambda>v. v\<lparr>vertex_hexes := vertex_hexes v @ [hk]\<rparr>) vs \<rparr>))"

definition createVerticesForHex :: "hexkey \<Rightarrow> board \<Rightarrow> board" where
  "createVerticesForHex hk b = fold (createVertexFor hk) [0..<6] b"

definition createEdgeFor :: "hexkey \<Rightarrow> nat \<Rightarrow> board \<Rightarrow> board" where
  "createEdgeFor hk direction b =
     (let key = getEdgeCoords (fst hk) (snd hk) direction;
          es = (if map_of (edges b) key = None
                then AList.update key newEdge (edges b) else edges b)
      in b\<lparr> hexes := AList.map_entry hk (\<lambda>h. h\<lparr>hex_edges := hex_edges h @ [key]\<rparr>) (hexes b),
            edges := AList.map_entry key (\<lambda>e. e\<lparr>edge_hexes := edge_hexes e @ [hk]\<rparr>) es \<rparr>)"

definition createEdgesForHex :: "hexkey \<Rightarrow> board \<Rightarrow> board" where
  "createEdgesForHex hk b = fold (createEdgeFor hk) [0..<6] b"

definition neighborOffsets :: "(int \<times> int) list" where
  "neighborOffsets = [(1, -1), (1, 0), (0, 1), (-1, 1), (-1, 0), (0, -1)]"

definition linkNeighbor :: "hexkey \<Rightarrow> int \<times> int \<Rightarrow> board \<Rightarrow> board" where
  "linkNeighbor hk off b =
     (case getHex b (fst hk + fst off) (snd hk + snd off) of
        Some nb \<Rightarrow>
          b\<lparr>hexes := AList.map_entry hk
               (\<lambda>h. h\<lparr>hex_neighbors := hex_neighbors h @ [(fst hk + fst off, snd hk + snd off)]\<rparr>)
               (hexes b)\<rparr>
      | None \<Rightarrow> b)"

text \<open>
  The body of the inner \<^verbatim>\<open>edgeIndices.forEach\<close>: the vertex gets the edge unless it
  already has it, and the edge gets the vertex unless it already has it.
\<close>

definition linkVertexEdge :: "coord \<Rightarrow> coord \<Rightarrow> board \<Rightarrow> board" where
  "linkVertexEdge vk ek b =
     (let b1 = (case map_of (vertices b) vk of
                  Some v \<Rightarrow>
                    (if ek \<notin> set (vertex_edges v)
                     then b\<lparr>vertices := AList.map_entry vk
                            (\<lambda>v. v\<lparr>vertex_edges := vertex_edges v @ [ek]\<rparr>) (vertices b)\<rparr>
                     else b)
                | None \<Rightarrow> b)
      in (case map_of (edges b1) ek of
            Some e \<Rightarrow>
              (if vk \<notin> set (edge_vertices e)
               then b1\<lparr>edges := AList.map_entry ek
                      (\<lambda>e. e\<lparr>edge_vertices := edge_vertices e @ [vk]\<rparr>) (edges b1)\<rparr>
               else b1)
          | None \<Rightarrow> b1))"

text \<open>
  One step of \<^verbatim>\<open>hex.vertices.forEach((vertex, vertexIndex) => ...)\<close>: the three edge
  indices are looked up in \<^verbatim>\<open>hex.edges\<close>; an index past its end gives \<^verbatim>\<open>undefined\<close>
  and is skipped.
\<close>

definition linkVertexAt :: "hexkey \<Rightarrow> nat \<times> coord \<Rightarrow> board \<Rightarrow> board" where
  "linkVertexAt hk iv b =
     fold (\<lambda>edgeIndex b.
             (case map_of (hexes b) hk of
                Some h \<Rightarrow>
                  (if edgeIndex < length (hex_edges h)
                   then linkVertexEdge (snd iv) (hex_edges h ! edgeIndex) b else b)
              | None \<Rightarrow> b))
          [(fst iv + 5) mod 6, fst iv, (fst iv + 1) mod 6] b"

definition linkHexRelationships :: "hexkey \<Rightarrow> board \<Rightarrow> board" where
  "linkHexRelationships hk b =
     (let b1 = fold (linkNeighbor hk) neighborOffsets b
      in (case map_of (hexes b1) hk of
            Some h \<Rightarrow> fold (linkVertexAt hk) (enumerate 0 (hex_vertices h)) b1
          | None \<Rightarrow> b1))"

definition buildRelationships :: "board \<Rightarrow> board" where
  "buildRelationships b =
     (let ks = map fst (hexes b);
          b1 = fold (\<lambda>k b. createEdgesForHex k (createVerticesForHex k b)) ks b
      in fold linkHexRelationships ks b1)"

subsection \<open>Board: number tokens and the robber\<close>

definition hasRedToken :: "board \<Rightarrow> hexkey \<Rightarrow> bool" where
  "hasRedToken b k =
     (case map_of (hexes b) k of
        Some h \<Rightarrow> (case numberToken h of Some tk \<Rightarrow> isHighProbability (snd tk) | None \<Rightarrow> False)
      | None \<Rightarrow> False)"

definition neighborsOf :: "board \<Rightarrow> hexkey \<Rightarrow> hexkey list" where
  "neighborsOf b k = (case map_of (hexes b) k of Some h \<Rightarrow> hex_neighbors h | None \<Rightarrow> [])"

definition validHexes :: "board \<Rightarrow> hexkey list \<Rightarrow> hexkey list" where
  "validHexes b availableHexes =
     filter (\<lambda>k. \<not> list_ex (hasRedToken b) (neighborsOf b k)) availableHexes"

text \<open>
  \<^verbatim>\<open>Board.placeRedTokensWithConstraint\<close>. The last component of the result counts the
  calls of \<^verbatim>\<open>console.warn\<close>, that is, how often the fallback branch was taken.
\<close>

fun placeRedTokensWithConstraint ::
  "nat list \<Rightarrow> hexkey list \<Rightarrow> nat list \<Rightarrow> board \<Rightarrow> nat \<Rightarrow> board \<times> nat list \<times> nat" where
  "placeRedTokensWithConstraint [] availableHexes rs b warned = (b, rs, warned)"
| "placeRedTokensWithConstraint (tk # tks) availableHexes rs b warned =
     (let valid = validHexes b availableHexes in
      if valid \<noteq> [] then
        (case rand (length valid) rs of
           (randomIndex, rs') \<Rightarrow>
             (let selectedHex = valid ! randomIndex
              in placeRedTokensWithConstraint tks (remove1 selectedHex availableHexes) rs'
                   (placeOnHex tk selectedHex b) warned))
      else if availableHexes \<noteq> [] then
        placeRedTokensWithConstraint tks (butlast availableHexes) rs
          (placeOnHex tk (last availableHexes) b) (warned + 1)
      else placeRedTokensWithConstraint tks availableHexes rs b (warned + 1))"

definition hasNoToken :: "board \<Rightarrow> hexkey \<Rightarrow> bool" where
  "hasNoToken b k = (case map_of (hexes b) k of Some h \<Rightarrow> numberToken h = None | None \<Rightarrow> False)"

definition placeRemainingTokens :: "nat list \<Rightarrow> hexkey list \<Rightarrow> nat list \<Rightarrow> board \<Rightarrow> board \<times> nat list" where
  "placeRemainingTokens tks hs rs b =
     (case shuffleArray (filter (hasNoToken b) hs) rs of
        (shuffledAvailable, rs') \<Rightarrow>
          (fold (\<lambda>(tk, k). placeOnHex tk k) (zip tks shuffledAvailable) b, rs'))"

definition placeNumberTokens :: "nat list \<Rightarrow> board \<Rightarrow> board \<times> nat list \<times> nat" where
  "placeNumberTokens rs b0 =
     (let b = b0\<lparr>numberTokens := createStandardSet\<rparr>;
          resourceHexes = map fst (filter (\<lambda>kh. terrain (snd kh) \<noteq> ''desert'') (hexes b));
          redTokens = filter (\<lambda>i. isHighProbability (token_value (numberTokens b ! i)))
                        [0..<length (numberTokens b)];
          nonRedTokens = filter (\<lambda>i. \<not> isHighProbability (token_value (numberTokens b ! i)))
                           [0..<length (numberTokens b)]
      in (case shuffleArray redTokens rs of
            (shuffledRedTokens, rs1) \<Rightarrow>
              (case shuffleArray nonRedTokens rs1 of
                 (shuffledNonRedTokens, rs2) \<Rightarrow>
                   (case placeRedTokensWithConstraint shuffledRedTokens resourceHexes rs2 b 0 of
                      (b1, rs3, warned) \<Rightarrow>
                        (case placeRemainingTokens shuffledNonRedTokens resourceHexes rs3 b1 of
                           (b2, rs4) \<Rightarrow> (b2, rs4, warned))))))"

definition placeRobberOnDesert :: "board \<Rightarrow> board" where
  "placeRobberOnDesert b =
     (case find (\<lambda>kh. terrain (snd kh) = ''desert'') (hexes b) of
        Some kh \<Rightarrow> robber_moveTo (fst kh) b
      | None \<Rightarrow> b)"

text \<open>
  \<^verbatim>\<open>Board.generateStandardBoard\<close>, from any previous board; it returns the board, the
  unused randomness and the number of warnings printed.
\<close>

definition generateStandardBoard :: "nat list \<Rightarrow> board \<Rightarrow> board \<times> nat list \<times> nat" where
  "generateStandardBoard rs b0 =
     (let b1 = clear b0 in
      case shuffleArray terrains rs of
        (shuffledTerrains, rs1) \<Rightarrow>
          (let b2 = createHexes shuffledTerrains b1;
               b3 = buildRelationships b2
           in (case placeNumberTokens rs1 b3 of
                 (b4, rs2, warned) \<Rightarrow>
                   ((placeRobberOnDesert b4)\<lparr>isGenerated := True\<rparr>, rs2, warned))))"

definition getProducingHexes :: "board \<Rightarrow> int option \<Rightarrow> hexkey list" where
  "getProducingHexes b diceRoll = map fst (filter (\<lambda>kh. shouldProduce (snd kh) diceRoll) (hexes b))"

section \<open>Vertices, edges and pieces\<close>

text \<open>
  A method of a vertex or an edge that changes it is a function on the board, given the
  object's key. A key that is not in the map stands for no object; the methods then
  report failure and change nothing.
\<close>

definition hasBuilding :: "board \<Rightarrow> coord \<Rightarrow> bool" where
  "hasBuilding b vk = (case map_of (vertices b) vk of Some v \<Rightarrow> building v \<noteq> None | None \<Rightarrow> False)"

text \<open>\<^verbatim>\<open>Vertex.canPlaceSettlement(player)\<close>; the player is not looked at.\<close>

definition canPlaceSettlement :: "board \<Rightarrow> vertex \<Rightarrow> bool" where
  "canPlaceSettlement b v =
     (if building v \<noteq> None then False
      else if list_ex (hasBuilding b) (adjacentVertices v) then False
      else True)"

definition canPlaceCity :: "vertex \<Rightarrow> nat \<Rightarrow> bool" where
  "canPlaceCity v player =
     (case building v of
        Some bd \<Rightarrow> ptype bd = Settlement \<and> owner bd = player
      | None \<Rightarrow> False)"

text \<open>
  \<^verbatim>\<open>Vertex.placeSettlement(settlement)\<close> and \<^verbatim>\<open>Settlement.placeOn(vertex)\<close>: on
  success the vertex holds the settlement and the settlement knows its vertex.
\<close>

definition vertex_placeSettlement :: "piece \<Rightarrow> coord \<Rightarrow> board \<Rightarrow> (piece \<times> board) option" where
  "vertex_placeSettlement s vk b =
     (case map_of (vertices b) vk of
        None \<Rightarrow> None
      | Some v \<Rightarrow>
          (if canPlaceSettlement b v
           then (let s' = s\<lparr>placedAt := Some vk\<rparr>
                 in Some (s', b\<lparr>vertices := AList.map_entry vk (\<lambda>v. v\<lparr>building := Some s'\<rparr>) (vertices b)\<rparr>))
           else None))"

text \<open>
  \<^verbatim>\<open>Vertex.upgradeToCity(city)\<close> and \<^verbatim>\<open>City.placeOn(vertex)\<close>: on success the result
  is the placed city, the settlement that stood there, and the new board.
\<close>

definition vertex_upgradeToCity :: "piece \<Rightarrow> coord \<Rightarrow> board \<Rightarrow> (piece \<times> piece \<times> board) option" where
  "vertex_upgradeToCity c vk b =
     (case map_of (vertices b) vk of
        None \<Rightarrow> None
      | Some v \<Rightarrow>
          (if canPlaceCity v (owner c)
           then (case building v of
                   Some oldSettlement \<Rightarrow>
                     (let c' = c\<lparr>placedAt := Some vk\<rparr>
                      in Some (c', oldSettlement,
                               b\<lparr>vertices := AList.map_entry vk (\<lambda>v. v\<lparr>building := Some c'\<rparr>) (vertices b)\<rparr>))
                 | None \<Rightarrow> None)
           else None))"

definition ownsBuildingAt :: "board \<Rightarrow> nat \<Rightarrow> coord \<Rightarrow> bool" where
  "ownsBuildingAt b player vk =
     (case map_of (vertices b) vk of
        Some v \<Rightarrow> (case building v of Some bd \<Rightarrow> owner bd = player | None \<Rightarrow> False)
      | None \<Rightarrow> False)"

definition ownsRoadAt :: "board \<Rightarrow> nat \<Rightarrow> coord \<Rightarrow> bool" where
  "ownsRoadAt b player ek =
     (case map_of (edges b) ek of
        Some e \<Rightarrow> (case road e of Some rd \<Rightarrow> owner rd = player | None \<Rightarrow> False)
      | None \<Rightarrow> False)"

definition canPlaceRoad :: "board \<Rightarrow> edge \<Rightarrow> nat \<Rightarrow> bool" where
  "canPlaceRoad b e player =
     (if road e \<noteq> None then False
      else if list_ex (ownsBuildingAt b player) (edge_vertices e) then True
      else if list_ex (ownsRoadAt b player) (adjacentEdges e) then True
      else False)"

definition edge_placeRoad :: "piece \<Rightarrow> coord \<Rightarrow> board \<Rightarrow> (piece \<times> board) option" where
  "edge_placeRoad rd ek b =
     (case map_of (edges b) ek of
        None \<Rightarrow> None
      | Some e \<Rightarrow>
          (if canPlaceRoad b e (owner rd)
           then (let rd' = rd\<lparr>placedAt := Some ek\<rparr>
                 in Some (rd', b\<lparr>edges := AList.map_entry ek (\<lambda>e. e\<lparr>road := Some rd'\<rparr>) (edges b)\<rparr>))
           else None))"

text \<open>
  \<^verbatim>\<open>Settlement.collectResources(diceRoll)\<close> and \<^verbatim>\<open>City.collectResources(diceRoll)\<close>:
  one, respectively two, of the resource of every hex of the piece's vertex that should
  produce on the roll. The piece holds a reference to its vertex object, and the vertex
  to its hex objects; the board \<open>b\<close> given here is the board that holds these objects,
  that is, the board the piece was placed on (\<open>boardOfPiece\<close> below finds it in a game).
\<close>

definition producedBy :: "board \<Rightarrow> int option \<Rightarrow> hexkey \<Rightarrow> string list" where
  "producedBy b diceRoll hk =
     (case map_of (hexes b) hk of
        Some h \<Rightarrow>
          (if shouldProduce h diceRoll
           then (case getResourceType h of Some resourceType \<Rightarrow> [resourceType] | None \<Rightarrow> [])
           else [])
      | None \<Rightarrow> [])"

definition hexesOfPiece :: "board \<Rightarrow> piece \<Rightarrow> hexkey list" where
  "hexesOfPiece b pc =
     (case placedAt pc of
        Some vk \<Rightarrow> (case map_of (vertices b) vk of Some v \<Rightarrow> vertex_hexes v | None \<Rightarrow> [])
      | None \<Rightarrow> [])"

definition settlement_collectResources :: "board \<Rightarrow> int option \<Rightarrow> piece \<Rightarrow> string list" where
  "settlement_collectResources b diceRoll s =
     concat (map (producedBy b diceRoll) (hexesOfPiece b s))"

definition city_collectResources :: "board \<Rightarrow> int option \<Rightarrow> piece \<Rightarrow> string list" where
  "city_collectResources b diceRoll c =
     concat (map (\<lambda>hk. concat (map (\<lambda>r. [r, r]) (producedBy b diceRoll hk))) (hexesOfPiece b c))"

section \<open>Player: building and collecting\<close>

text \<open>
  The building methods of \<^verbatim>\<open>Player\<close> change the player and the board. \<open>fresh\<close> is the
  identity of the piece object they create with \<^verbatim>\<open>new\<close>.
\<close>

definition newPiece :: "nat \<Rightarrow> nat \<Rightarrow> piece_type \<Rightarrow> piece" where
  "newPiece fresh player t = \<lparr> piece_id = fresh, owner = player, ptype = t, placedAt = None \<rparr>"

definition buildSettlement :: "coord \<Rightarrow> nat \<Rightarrow> player \<Rightarrow> board \<Rightarrow> piece option \<times> player \<times> board" where
  "buildSettlement vk fresh p b =
     (if \<not> canAfford ''settlement'' p \<or> settlementsRemaining p \<le> 0 then (None, p, b)
      else (case vertex_placeSettlement (newPiece fresh (pid p) Settlement) vk b of
              Some (settlement, b') \<Rightarrow>
                (let p1 = snd (payFor ''settlement'' p);
                     p2 = p1\<lparr> settlements := settlements p1 @ [settlement],
                              settlementsRemaining := settlementsRemaining p1 - 1 \<rparr>
                 in (Some settlement, updateVictoryPoints p2, b'))
            | None \<Rightarrow> (None, p, b)))"

text \<open>
  \<^verbatim>\<open>this.settlements.indexOf(oldSettlement)\<close> followed by \<^verbatim>\<open>splice(index, 1)\<close>
  removes the first element that is the same object, if there is one.
\<close>

fun removePiece :: "nat \<Rightarrow> piece list \<Rightarrow> piece list" where
  "removePiece i [] = []"
| "removePiece i (x # xs) = (if piece_id x = i then xs else x # removePiece i xs)"

definition buildCity :: "coord \<Rightarrow> nat \<Rightarrow> player \<Rightarrow> board \<Rightarrow> (piece \<times> piece) option \<times> player \<times> board" where
  "buildCity vk fresh p b =
     (if \<not> canAfford ''city'' p \<or> citiesRemaining p \<le> 0 then (None, p, b)
      else (case vertex_upgradeToCity (newPiece fresh (pid p) City) vk b of
              Some (city, oldSettlement, b') \<Rightarrow>
                (let p1 = snd (payFor ''city'' p);
                     p2 = p1\<lparr> cities := cities p1 @ [city],
                              citiesRemaining := citiesRemaining p1 - 1,
                              settlementsRemaining := settlementsRemaining p1 + 1 \<rparr>;
                     p3 = p2\<lparr>settlements := removePiece (piece_id oldSettlement) (settlements p2)\<rparr>
                 in (Some (city, oldSettlement), updateVictoryPoints p3, b'))
            | None \<Rightarrow> (None, p, b)))"

definition buildRoad :: "coord \<Rightarrow> nat \<Rightarrow> player \<Rightarrow> board \<Rightarrow> piece option \<times> player \<times> board" where
  "buildRoad ek fresh p b =
     (if \<not> canAfford ''road'' p \<or> roadsRemaining p \<le> 0 then (None, p, b)
      else (case edge_placeRoad (newPiece fresh (pid p) Road) ek b of
              Some (rd, b') \<Rightarrow>
                (let p1 = snd (payFor ''road'' p);
                     p2 = p1\<lparr> roads := roads p1 @ [rd], roadsRemaining := roadsRemaining p1 - 1 \<rparr>
                 in (Some rd, p2, b'))
            | None \<Rightarrow> (None, p, b)))"

text \<open>
  \<^verbatim>\<open>Player.collectFromDiceRoll(diceRoll)\<close>. Every piece collects through its own
  vertex object; \<open>bf piece\<close> is the board that holds it.
\<close>

definition collectFromDiceRoll :: "(piece \<Rightarrow> board) \<Rightarrow> int option \<Rightarrow> player \<Rightarrow> player \<times> string list" where
  "collectFromDiceRoll bf diceRoll p =
     (let collected = concat (map (\<lambda>settlement. settlement_collectResources (bf settlement) diceRoll settlement)
                                (settlements p))
                      @ concat (map (\<lambda>city. city_collectResources (bf city) diceRoll city) (cities p))
      in (fold (\<lambda>resource. addResources resource 1) collected p, collected))"

section \<open>Game: phases, placements, dice and turns\<close>

text \<open>
  The event log keeps the message of each \<^verbatim>\<open>logEvent\<close> call (the data the message
  is formatted from); the turn, phase, player and timestamp stored beside it are left
  out. \<^verbatim>\<open>Game.players\<close> is a list, a player object is addressed by its position in it,
  and \<open>nextPieceId\<close> and \<open>nextPlayerId\<close> supply the identities of new piece and
  player objects. A method call on a missing player (\<^verbatim>\<open>undefined\<close>) throws a
  \<^verbatim>\<open>TypeError\<close>, which is the error value of the result.
\<close>

datatype phase = Waiting | Setup | Playing | Finished

datatype error = TypeError

datatype event =
    Joined string
  | GameStarted
  | PlacedSettlement string coord
  | PlacedRoad string coord
  | Rolled string int int int
  | DiscardedCards string nat
  | RobberActivated
  | Collected string "string list"
  | SetupComplete
  | TurnBegins int string
  | Wins string int
  | RobberMoved string

record game =
  board :: board
  players :: "player list"
  gamePhase :: phase
  currentPlayerIndex :: int
  turnNumber :: int
  setupRound :: int
  setupDirection :: int
  hasRolledDice :: bool
  diceResult :: "(int \<times> int \<times> int) option"
  canBuild :: bool
  canTrade :: bool
  eventLog :: "event list"
  winner :: "nat option"
  nextPieceId :: nat
  nextPlayerId :: nat
  detached :: "(nat \<times> board) list"

definition targetVictoryPoints :: int where
  "targetVictoryPoints = 10"

definition maxPlayers :: nat where
  "maxPlayers = 6"

definition newGame :: game where
  "newGame =
     \<lparr> board = newBoard, players = [], gamePhase = Waiting, currentPlayerIndex = 0,
       turnNumber = 0, setupRound = 1, setupDirection = 1, hasRolledDice = False,
       diceResult = None, canBuild = False, canTrade = False, eventLog = [],
       winner = None, nextPieceId = 1, nextPlayerId = 1, detached = [] \<rparr>"

definition logEvent :: "event \<Rightarrow> game \<Rightarrow> game" where
  "logEvent ev g = g\<lparr>eventLog := eventLog g @ [ev]\<rparr>"

text \<open>\<^verbatim>\<open>name || `Player ${color}`\<close>: a missing or empty name gives the default.\<close>

definition addPlayer :: "string \<Rightarrow> string option \<Rightarrow> game \<Rightarrow> nat option \<times> game" where
  "addPlayer color nm g =
     (if maxPlayers \<le> length (players g) then (None, g)
      else if gamePhase g \<noteq> Waiting then (None, g)
      else (let n = (case nm of Some s \<Rightarrow> (if s = [] then ''Player '' @ color else s)
                              | None \<Rightarrow> ''Player '' @ color);
                p = newPlayer (nextPlayerId g) n
            in (Some (length (players g)),
                logEvent (Joined n)
                  (g\<lparr>players := players g @ [p], nextPlayerId := nextPlayerId g + 1\<rparr>))))"

text \<open>
  \<^verbatim>\<open>Game.startGame\<close> has no guard on the phase, so it can be called again while
  pieces stand on the board. \<^verbatim>\<open>generateStandardBoard\<close> then fills the board with new
  hex, vertex and edge objects, while the pieces the players hold keep their references
  to the old ones, which nothing changes any more. \<open>detached\<close> keeps the board as it
  was at each such call, with the piece identity reached then: a piece with a smaller
  identity was placed before the call. \<open>boardOfPiece\<close> is the board whose objects a
  piece refers to. The methods of the game are called with vertices, edges and hexes of
  the current board.
\<close>

definition startGame :: "nat list \<Rightarrow> game \<Rightarrow> bool \<times> game" where
  "startGame rs g =
     (if length (players g) < 2 then (False, g)
      else (True, logEvent GameStarted
                    (g\<lparr> board := fst (generateStandardBoard rs (board g)),
                        detached := detached g @ [(nextPieceId g, board g)],
                        gamePhase := Setup, currentPlayerIndex := 0 \<rparr>)))"

definition boardOfPiece :: "game \<Rightarrow> piece \<Rightarrow> board" where
  "boardOfPiece g pc =
     (case find (\<lambda>old. piece_id pc < fst old) (detached g) of
        Some old \<Rightarrow> snd old
      | None \<Rightarrow> board g)"

text \<open>\<^verbatim>\<open>this.players[this.currentPlayerIndex]\<close>, \<open>None\<close> for \<^verbatim>\<open>undefined\<close>.\<close>

definition getCurrentPlayer :: "game \<Rightarrow> nat option" where
  "getCurrentPlayer g =
     (if 0 \<le> currentPlayerIndex g \<and> nat (currentPlayerIndex g) < length (players g)
      then Some (nat (currentPlayerIndex g)) else None)"

text \<open>\<^verbatim>\<open>player = player || this.getCurrentPlayer()\<close>\<close>

definition resolvePlayer :: "game \<Rightarrow> nat option \<Rightarrow> nat option" where
  "resolvePlayer g who =
     (case who of
        Some i \<Rightarrow> (if i < length (players g) then Some i else None)
      | None \<Rightarrow> getCurrentPlayer g)"

definition placeSetupSettlement :: "coord \<Rightarrow> nat option \<Rightarrow> game \<Rightarrow> error + (piece option \<times> game)" where
  "placeSetupSettlement vk pl g =
     (if \<not> (case map_of (vertices (board g)) vk of
               Some v \<Rightarrow> canPlaceSettlement (board g) v | None \<Rightarrow> False)
      then Inr (None, g)
      else (case pl of
              None \<Rightarrow> Inl TypeError
            | Some i \<Rightarrow>
                (case buildSettlement vk (nextPieceId g) (players g ! i) (board g) of
                   (Some settlement, p', b') \<Rightarrow>
                     (let p1 = p'\<lparr>payForOverridden := True\<rparr>;
                          collected = (if setupRound g = 2
                                       then settlement_collectResources b' None settlement else []);
                          p2 = fold (\<lambda>resource. addResources resource 1) collected p1
                      in Inr (Some settlement,
                              logEvent (PlacedSettlement (name p2) vk)
                                (g\<lparr> board := b', players := (players g)[i := p2],
                                    nextPieceId := nextPieceId g + 1 \<rparr>)))
                 | (None, p', b') \<Rightarrow> Inr (None, g))))"

definition placeNormalSettlement :: "coord \<Rightarrow> nat option \<Rightarrow> game \<Rightarrow> error + (piece option \<times> game)" where
  "placeNormalSettlement vk pl g =
     (if \<not> canBuild g \<or> hasRolledDice g = False then Inr (None, g)
      else (case pl of
              None \<Rightarrow> Inl TypeError
            | Some i \<Rightarrow>
                (case buildSettlement vk (nextPieceId g) (players g ! i) (board g) of
                   (Some settlement, p', b') \<Rightarrow>
                     Inr (Some settlement,
                          g\<lparr> board := b', players := (players g)[i := p'],
                              nextPieceId := nextPieceId g + 1 \<rparr>)
                 | (None, p', b') \<Rightarrow> Inr (None, g))))"

definition placeSettlement :: "coord \<Rightarrow> nat option \<Rightarrow> game \<Rightarrow> error + (piece option \<times> game)" where
  "placeSettlement vk who g =
     (let pl = resolvePlayer g who in
      if gamePhase g = Setup then placeSetupSettlement vk pl g
      else if gamePhase g = Playing then placeNormalSettlement vk pl g
      else Inr (None, g))"

definition placeSetupRoad :: "coord \<Rightarrow> nat option \<Rightarrow> game \<Rightarrow> error + (piece option \<times> game)" where
  "placeSetupRoad ek pl g =
     (case pl of
        None \<Rightarrow> Inl TypeError
      | Some i \<Rightarrow>
          (case buildRoad ek (nextPieceId g) (players g ! i) (board g) of
             (Some rd, p', b') \<Rightarrow>
               (let p1 = p'\<lparr>payForOverridden := True\<rparr>
                in Inr (Some rd,
                        logEvent (PlacedRoad (name p1) ek)
                          (g\<lparr> board := b', players := (players g)[i := p1],
                              nextPieceId := nextPieceId g + 1 \<rparr>)))
           | (None, p', b') \<Rightarrow> Inr (None, g)))"

definition placeNormalRoad :: "coord \<Rightarrow> nat option \<Rightarrow> game \<Rightarrow> error + (piece option \<times> game)" where
  "placeNormalRoad ek pl g =
     (if \<not> canBuild g \<or> hasRolledDice g = False then Inr (None, g)
      else (case pl of
              None \<Rightarrow> Inl TypeError
            | Some i \<Rightarrow>
                (case buildRoad ek (nextPieceId g) (players g ! i) (board g) of
                   (Some rd, p', b') \<Rightarrow>
                     Inr (Some rd,
                          g\<lparr> board := b', players := (players g)[i := p'],
                              nextPieceId := nextPieceId g + 1 \<rparr>)
                 | (None, p', b') \<Rightarrow> Inr (None, g))))"

definition placeRoad :: "coord \<Rightarrow> nat option \<Rightarrow> game \<Rightarrow> error + (piece option \<times> game)" where
  "placeRoad ek who g =
     (let pl = resolvePlayer g who in
      if gamePhase g = Setup then placeSetupRoad ek pl g
      else if gamePhase g = Playing then placeNormalRoad ek pl g
      else Inr (None, g))"

text \<open>
  \<^verbatim>\<open>Game.handleRobberRoll\<close>: every player with more than 7 cards discards half.
  \<^verbatim>\<open>discardHalf\<close> is a loop, so the result is an option.
\<close>

fun discardAll :: "player list \<Rightarrow> (player list \<times> event list) option" where
  "discardAll [] = Some ([], [])"
| "discardAll (p # ps) =
     (if 7 < getTotalResources p then
        (case discardHalf p of
           None \<Rightarrow> None
         | Some (p', discarded) \<Rightarrow>
             (case discardAll ps of
                None \<Rightarrow> None
              | Some (ps', evs) \<Rightarrow> Some (p' # ps', DiscardedCards (name p') (length discarded) # evs)))
      else (case discardAll ps of
              None \<Rightarrow> None
            | Some (ps', evs) \<Rightarrow> Some (p # ps', evs)))"

definition handleRobberRoll :: "game \<Rightarrow> game option" where
  "handleRobberRoll g =
     (case discardAll (players g) of
        None \<Rightarrow> None
      | Some (ps, evs) \<Rightarrow> Some (g\<lparr>players := ps, eventLog := eventLog g @ evs @ [RobberActivated]\<rparr>))"

definition collectedEvent :: "(piece \<Rightarrow> board) \<Rightarrow> int \<Rightarrow> player \<Rightarrow> event list" where
  "collectedEvent bf diceRoll p =
     (let collected = snd (collectFromDiceRoll bf (Some diceRoll) p)
      in if 0 < length collected then [Collected (name p) collected] else [])"

definition handleResourceProduction :: "int \<Rightarrow> game \<Rightarrow> game" where
  "handleResourceProduction diceRoll g =
     g\<lparr> players := map (\<lambda>p. fst (collectFromDiceRoll (boardOfPiece g) (Some diceRoll) p)) (players g),
        eventLog := eventLog g @ concat (map (collectedEvent (boardOfPiece g) diceRoll) (players g)) \<rparr>"

text \<open>
  \<^verbatim>\<open>Game.rollDice\<close>, with the two values the dice show as arguments. The outer option
  is \<open>None\<close> when the call does not return.
\<close>

definition rollDice :: "int \<Rightarrow> int \<Rightarrow> game \<Rightarrow> (error + ((int \<times> int \<times> int) option \<times> game)) option" where
  "rollDice die1 die2 g =
     (if gamePhase g \<noteq> Playing \<or> hasRolledDice g then Some (Inr (None, g))
      else (let total = die1 + die2;
                g1 = g\<lparr> diceResult := Some (die1, die2, total), hasRolledDice := True,
                        canBuild := True, canTrade := True \<rparr>
            in (case getCurrentPlayer g1 of
                  None \<Rightarrow> Some (Inl TypeError)
                | Some i \<Rightarrow>
                    (let g2 = logEvent (Rolled (name (players g1 ! i)) total die1 die2) g1
                     in if total = 7
                        then (case handleRobberRoll g2 of
                                None \<Rightarrow> None
                              | Some g3 \<Rightarrow> Some (Inr (diceResult g3, g3)))
                        else (let g3 = handleResourceProduction total g2
                              in Some (Inr (diceResult g3, g3)))))))"

definition endSetupTurn :: "game \<Rightarrow> game" where
  "endSetupTurn g0 =
     (let g = g0\<lparr>currentPlayerIndex := currentPlayerIndex g0 + setupDirection g0\<rparr> in
      if setupDirection g = 1 \<and> int (length (players g)) \<le> currentPlayerIndex g then
        (if setupRound g = 1
         then g\<lparr> setupRound := 2, setupDirection := -1,
                 currentPlayerIndex := int (length (players g)) - 1 \<rparr>
         else logEvent SetupComplete (g\<lparr>gamePhase := Playing, currentPlayerIndex := 0\<rparr>))
      else if setupDirection g = -1 \<and> currentPlayerIndex g < 0 then
        logEvent SetupComplete (g\<lparr>gamePhase := Playing, currentPlayerIndex := 0\<rparr>)
      else g)"

text \<open>
  \<^verbatim>\<open>(this.currentPlayerIndex + 1) % this.players.length\<close>: the remainder has the sign
  of the dividend, and with no players it is \<^verbatim>\<open>NaN\<close>; the message then reads the
  name of a missing player and throws.
\<close>

definition endNormalTurn :: "game \<Rightarrow> error + game" where
  "endNormalTurn g0 =
     (let g = g0\<lparr>hasRolledDice := False, diceResult := None, canBuild := False, canTrade := False\<rparr>;
          n = int (length (players g));
          a = currentPlayerIndex g + 1
      in if n = 0 then Inl TypeError
         else (let g1 = g\<lparr> currentPlayerIndex := (if 0 \<le> a then a mod n else - ((- a) mod n)),
                           turnNumber := turnNumber g + 1 \<rparr>
               in (case getCurrentPlayer g1 of
                     None \<Rightarrow> Inl TypeError
                   | Some i \<Rightarrow> Inr (logEvent (TurnBegins (turnNumber g1) (name (players g1 ! i))) g1))))"

text \<open>
  \<^verbatim>\<open>Game.checkWinCondition\<close>: the players are visited in order; each has the score
  recomputed, and the first with at least the target wins, which ends the loop.
\<close>

fun checkPlayers :: "nat \<Rightarrow> player list \<Rightarrow> player list \<times> nat option" where
  "checkPlayers i [] = ([], None)"
| "checkPlayers i (p # ps) =
     (let p' = updateVictoryPoints p in
      if targetVictoryPoints \<le> victoryPoints p' then (p' # ps, Some i)
      else (case checkPlayers (Suc i) ps of (ps', w) \<Rightarrow> (p' # ps', w)))"

definition checkWinCondition :: "game \<Rightarrow> bool \<times> game" where
  "checkWinCondition g =
     (case checkPlayers 0 (players g) of
        (ps, Some i) \<Rightarrow>
          (True, logEvent (Wins (name (ps ! i)) (victoryPoints (ps ! i)))
                   (g\<lparr>players := ps, winner := Some i, gamePhase := Finished\<rparr>))
      | (ps, None) \<Rightarrow> (False, g\<lparr>players := ps\<rparr>))"

definition endTurn :: "game \<Rightarrow> error + game" where
  "endTurn g =
     (case (if gamePhase g = Setup then Inr (endSetupTurn g)
            else if gamePhase g = Playing then endNormalTurn g
            else Inr g) of
        Inl e \<Rightarrow> Inl e
      | Inr g1 \<Rightarrow> Inr (snd (checkWinCondition g1)))"

definition moveRobber :: "hexkey \<Rightarrow> game \<Rightarrow> bool \<times> game" where
  "moveRobber hk g =
     (case diceResult g of
        Some (die1, die2, tot) \<Rightarrow>
          (if tot = 7
           then (True, logEvent (RobberMoved (case map_of (hexes (board g)) hk of
                                                Some h \<Rightarrow> terrain h | None \<Rightarrow> ''undefined''))
                         (g\<lparr>board := robber_moveTo hk (board g)\<rparr>))
           else (False, g))
      | None \<Rightarrow> (False, g))"

text \<open>
  A player with three settlements, the first on the vertex (1, -1, 4), and the price of
  a city; the board holds that vertex.
\<close>

definition upgradeSettlement :: piece where
  "upgradeSettlement = \<lparr> piece_id = 1, owner = 1, ptype = Settlement, placedAt = Some (1, -1, 4) \<rparr>"

definition upgradeVertex :: vertex where
  "upgradeVertex = newVertex\<lparr>building := Some upgradeSettlement, vertex_hexes := [(0, 0)]\<rparr>"

definition upgradeBoard :: board where
  "upgradeBoard = newBoard\<lparr>vertices := [((1, -1, 4), upgradeVertex)]\<rparr>"

definition upgradePlayer :: player where
  "upgradePlayer =
     (newPlayer 1 ''Alice'')
       \<lparr> settlements := [upgradeSettlement,
                         \<lparr> piece_id = 2, owner = 1, ptype = Settlement, placedAt = Some (0, 2, 0) \<rparr>,
                         \<lparr> piece_id = 3, owner = 1, ptype = Settlement, placedAt = Some (2, 0, 1) \<rparr>],
         settlementsRemaining := 2,
         resources := \<lparr> lumber = 0, brick = 0, ore = 3, grain = 2, wool = 0 \<rparr> \<rparr>"

text \<open>The score \<^verbatim>\<open>updateVictoryPoints\<close> computes for a player.\<close>

definition score :: "player \<Rightarrow> int" where
  "score p = victoryPoints (updateVictoryPoints p)"

text \<open>
  A state in normal play after the dice were rolled: the first player has four cities
  and one settlement on five corners of the hex (0, 0) and the price of a settlement;
  the sixth corner, (0, -1, 3), is free.
\<close>

definition lateBoard :: board where
  "lateBoard =
     newBoard\<lparr> vertices :=
       [((1, -1, 4), newVertex\<lparr>vertex_hexes := [(0, 0)],
           building := Some \<lparr> piece_id = 11, owner = 1, ptype = City, placedAt = Some (1, -1, 4) \<rparr>\<rparr>),
        ((1, 0, 5), newVertex\<lparr>vertex_hexes := [(0, 0)],
           building := Some \<lparr> piece_id = 12, owner = 1, ptype = City, placedAt = Some (1, 0, 5) \<rparr>\<rparr>),
        ((0, 1, 0), newVertex\<lparr>vertex_hexes := [(0, 0)],
           building := Some \<lparr> piece_id = 13, owner = 1, ptype = City, placedAt = Some (0, 1, 0) \<rparr>\<rparr>),
        ((-1, 1, 1), newVertex\<lparr>vertex_hexes := [(0, 0)],
           building := Some \<lparr> piece_id = 14, owner = 1, ptype = City, placedAt = Some (-1, 1, 1) \<rparr>\<rparr>),
        ((-1, 0, 2), newVertex\<lparr>vertex_hexes := [(0, 0)],
           building := Some \<lparr> piece_id = 5, owner = 1, ptype = Settlement, placedAt = Some (-1, 0, 2) \<rparr>\<rparr>),
        ((0, -1, 3), newVertex\<lparr>vertex_hexes := [(0, 0)]\<rparr>)] \<rparr>"

definition latePlayer :: player where
  "latePlayer =
     (newPlayer 1 ''Alice'')
       \<lparr> settlements := [\<lparr> piece_id = 5, owner = 1, ptype = Settlement, placedAt = Some (-1, 0, 2) \<rparr>],
         cities := [\<lparr> piece_id = 11, owner = 1, ptype = City, placedAt = Some (1, -1, 4) \<rparr>,
                    \<lparr> piece_id = 12, owner = 1, ptype = City, placedAt = Some (1, 0, 5) \<rparr>,
                    \<lparr> piece_id = 13, owner = 1, ptype = City, placedAt = Some (0, 1, 0) \<rparr>,
                    \<lparr> piece_id = 14, owner = 1, ptype = City, placedAt = Some (-1, 1, 1) \<rparr>],
         settlementsRemaining := 4, citiesRemaining := 0,
         resources := \<lparr> lumber = 1, brick = 1, ore = 0, grain = 1, wool = 1 \<rparr>,
         victoryPoints := 9 \<rparr>"

definition lateGame :: game where
  "lateGame =
     newGame\<lparr> board := lateBoard, players := [latePlayer, newPlayer 2 ''Bob''],
              gamePhase := Playing, turnNumber := 40, setupRound := 2, setupDirection := -1,
              hasRolledDice := True, diceResult := Some (2, 3, 5), canBuild := True,
              canTrade := True, nextPieceId := 15, nextPlayerId := 3 \<rparr>"

text \<open>
  The game after two players joined and the game was started: the setup phase, with the
  first player to move and nobody holding a resource. The second state is a setup
  phase in which the player to move holds the price of a settlement.
\<close>

definition setupGame :: "nat list \<Rightarrow> game" where
  "setupGame rs =
     snd (startGame rs (snd (addPlayer ''blue'' None (snd (addPlayer ''red'' None newGame)))))"

definition fundedSetupGame :: game where
  "fundedSetupGame = lateGame\<lparr>gamePhase := Setup\<rparr>"

text \<open>No counter of \<open>p'\<close> is above the same counter of \<open>p\<close>.\<close>

definition noGain :: "player \<Rightarrow> player \<Rightarrow> bool" where
  "noGain p p' =
     (lumber (resources p') \<le> lumber (resources p) \<and> brick (resources p') \<le> brick (resources p)
      \<and> ore (resources p') \<le> ore (resources p) \<and> grain (resources p') \<le> grain (resources p)
      \<and> wool (resources p') \<le> wool (resources p))"

text \<open>
  A producing tile as the specification words it: a tile produces the resource \<open>k\<close>
  on the total \<open>V\<close> when its marker's value is \<open>V\<close>, its terrain is neither desert
  nor sea, it does not carry the robber, and \<open>k\<close> is the resource of its terrain.
\<close>

definition tileProduces :: "board \<Rightarrow> int \<Rightarrow> hexkey \<Rightarrow> string \<Rightarrow> bool" where
  "tileProduces b V hk k =
     (case map_of (hexes b) hk of
        None \<Rightarrow> False
      | Some h \<Rightarrow>
          (case numberToken h of Some tk \<Rightarrow> snd tk = V | None \<Rightarrow> False)
          \<and> terrain h \<noteq> ''desert'' \<and> terrain h \<noteq> ''sea'' \<and> \<not> hasRobber h
          \<and> map_of resourceMap (terrain h) = Some k)"

text \<open>
  A state in normal play before the dice are rolled, on the board \<open>b\<close>: the first of
  two players holds the settlement \<open>s\<close> and nothing else.
\<close>

definition settlerGame :: "board \<Rightarrow> piece \<Rightarrow> game" where
  "settlerGame b s =
     newGame\<lparr> board := b,
              players := [(newPlayer 1 ''Ann'')\<lparr>settlements := [s]\<rparr>, newPlayer 2 ''Bob''],
              gamePhase := Playing \<rparr>"

section \<open>Views of the board used in the proofs\<close>

text \<open>
  What the proofs read off a board: the keys and terrains of the hexes in map order, the
  token and the robber flag of the hex under a key, and the adjacency of hex coordinates
  that \<^verbatim>\<open>linkHexRelationships\<close> is meant to record (\<open>nbrs\<close>: the coordinates one
  neighbour offset away that are hexes of the board).
\<close>

definition keysOf :: "board \<Rightarrow> hexkey list" where
  "keysOf b = map fst (hexes b)"

definition terrainList :: "board \<Rightarrow> (hexkey \<times> string) list" where
  "terrainList b = map (\<lambda>kh. (fst kh, terrain (snd kh))) (hexes b)"

definition tokenAt :: "board \<Rightarrow> hexkey \<Rightarrow> (nat \<times> int) option" where
  "tokenAt b k = (case map_of (hexes b) k of Some h \<Rightarrow> numberToken h | None \<Rightarrow> None)"

definition robberAt :: "board \<Rightarrow> hexkey \<Rightarrow> bool" where
  "robberAt b k = (case map_of (hexes b) k of Some h \<Rightarrow> hasRobber h | None \<Rightarrow> False)"

definition nbrs :: "hexkey list \<Rightarrow> hexkey \<Rightarrow> hexkey list" where
  "nbrs ks k =
     filter (\<lambda>n. n \<in> set ks) (map (\<lambda>off. (fst k + fst off, snd k + snd off)) neighborOffsets)"

definition hexCore :: "hex \<Rightarrow> string \<times> (nat \<times> int) option \<times> bool \<times> hexkey list" where
  "hexCore h = (terrain h, numberToken h, hasRobber h, hex_neighbors h)"

definition coreList :: "board \<Rightarrow> (hexkey \<times> string \<times> (nat \<times> int) option \<times> bool \<times> hexkey list) list" where
  "coreList b = map (\<lambda>kh. (fst kh, hexCore (snd kh))) (hexes b)"

text \<open>
  \<open>sameFrame b b'\<close>: the two boards differ at most in which token lies on which
  hex. \<open>tokensBound b S\<close>: the tokens with positions in \<open>S\<close> are bound to a hex
  that is bound to them, the others have no hex. \<open>redApart b\<close>: no hex with a
  high-probability token has a neighbour (by \<^verbatim>\<open>hex.neighbors\<close>) with one.
\<close>

definition sameFrame :: "board \<Rightarrow> board \<Rightarrow> bool" where
  "sameFrame b b' =
     (keysOf b' = keysOf b \<and> terrainList b' = terrainList b \<and> robberAt b' = robberAt b
      \<and> neighborsOf b' = neighborsOf b
      \<and> map token_value (numberTokens b') = map token_value (numberTokens b)
      \<and> vertices b' = vertices b \<and> edges b' = edges b \<and> robber_hex b' = robber_hex b)"

definition tokensBound :: "board \<Rightarrow> nat set \<Rightarrow> bool" where
  "tokensBound b S =
     (\<forall>i < length (numberTokens b).
        (i \<in> S \<longrightarrow> (\<exists>k. token_hex (numberTokens b ! i) = Some k
                        \<and> tokenAt b k = Some (i, token_value (numberTokens b ! i))))
        \<and> (i \<notin> S \<longrightarrow> token_hex (numberTokens b ! i) = None))"

definition redApart :: "board \<Rightarrow> bool" where
  "redApart b = (\<forall>k k'. hasRedToken b k \<and> hasRedToken b k' \<longrightarrow> k' \<notin> set (neighborsOf b k))"

text \<open>
  \<open>symNeighbors b\<close>: \<^verbatim>\<open>hex.neighbors\<close> is a symmetric, irreflexive relation. \<open>placeInv\<close> is
  what holds whenever a token is about to be placed: the tokens still to place are
  distinct and unbound, and the hexes still available are distinct hexes of the board
  without a token, at least as many as the tokens.
\<close>

definition symNeighbors :: "board \<Rightarrow> bool" where
  "symNeighbors b =
     (\<forall>k k'. k' \<in> set (neighborsOf b k) \<longrightarrow> k' \<noteq> k \<and> k \<in> set (neighborsOf b k'))"

definition placeInv :: "board \<Rightarrow> nat set \<Rightarrow> nat list \<Rightarrow> hexkey list \<Rightarrow> bool" where
  "placeInv b S tks avail =
     (tokensBound b S \<and> distinct tks \<and> set tks \<inter> S = {}
      \<and> (\<forall>t \<in> set tks. t < length (numberTokens b))
      \<and> distinct avail \<and> (\<forall>k \<in> set avail. k \<in> set (keysOf b) \<and> tokenAt b k = None)
      \<and> length tks \<le> length avail)"

text \<open>The hexes of a list that carry no token.\<close>

definition unmarked :: "board \<Rightarrow> hexkey list \<Rightarrow> hexkey list" where
  "unmarked b L = filter (\<lambda>k. tokenAt b k = None) L"

text \<open>The twelve hexes on the rim of the standard layout.\<close>

definition outerRing :: "hexkey list" where
  "outerRing =
     [(-2, 0), (-1, -1), (0, -2), (-2, 1), (1, -2), (-2, 2), (2, -2),
      (-1, 2), (2, -1), (0, 2), (1, 1), (2, 0)]"

text \<open>The rim hexes that are \<open>p\<close> or have \<open>p\<close> as a neighbour.\<close>

definition rimCover :: "hexkey \<Rightarrow> hexkey list" where
  "rimCover p = filter (\<lambda>x. x = p \<or> p \<in> set (nbrs hexLayout x)) outerRing"

text \<open>
  The keys under which \<^verbatim>\<open>createVerticesForHex\<close> and \<^verbatim>\<open>createEdgesForHex\<close> look up the
  six corners and the six sides of a hex, and what the proofs read off a vertex or an
  edge apart from the links that \<^verbatim>\<open>linkHexRelationships\<close> adds.
\<close>

definition cornerKeys :: "hexkey \<Rightarrow> coord list" where
  "cornerKeys k = map (\<lambda>(dq, dr, d). (fst k + dq, snd k + dr, d)) vertexOffsets"

definition sideKeys :: "hexkey \<Rightarrow> coord list" where
  "sideKeys k = map (getEdgeCoords (fst k) (snd k)) [0..<6]"

definition vertexCore :: "vertex \<Rightarrow> piece option \<times> hexkey list \<times> coord list" where
  "vertexCore v = (building v, vertex_hexes v, adjacentVertices v)"

definition vertexCoreList :: "board \<Rightarrow> (coord \<times> piece option \<times> hexkey list \<times> coord list) list" where
  "vertexCoreList b = map (\<lambda>cv. (fst cv, vertexCore (snd cv))) (vertices b)"

definition edgeCore :: "edge \<Rightarrow> piece option \<times> hexkey list \<times> coord list" where
  "edgeCore e = (road e, edge_hexes e, adjacentEdges e)"

definition edgeCoreList :: "board \<Rightarrow> (coord \<times> piece option \<times> hexkey list \<times> coord list) list" where
  "edgeCoreList b = map (\<lambda>ce. (fst ce, edgeCore (snd ce))) (edges b)"

section \<open>Verified properties\<close>

subsection \<open>The player ledger\<close>

lemma getResource_None_iff: "getResource rs k = None \<longleftrightarrow> k \<notin> set resourceTypes"
  by (simp add: getResource_def resourceTypes_def)

lemma getResource_setResource_same:
  "getResource rs k = Some v \<Longrightarrow> getResource (setResource k w rs) k = Some w"
  by (auto simp: getResource_def setResource_def split: if_splits)

lemma getResource_setResource_other:
  "k' \<noteq> k \<Longrightarrow> getResource (setResource k w rs) k' = getResource rs k'"
  by (auto simp: getResource_def setResource_def split: if_splits)

lemma removeResources_known:
  "getResource (resources p) k = Some v \<Longrightarrow>
   removeResources k n p = (True, p\<lparr>resources := setResource k (max 0 (v - n)) (resources p)\<rparr>)"
  by (simp add: removeResources_def)

lemma removeResources_unknown:
  "getResource (resources p) k = None \<Longrightarrow> removeResources k n p = (False, p)"
  by (simp add: removeResources_def)

lemma nonneg_setResource:
  "nonneg p \<Longrightarrow> 0 \<le> w \<Longrightarrow> nonneg (p\<lparr>resources := setResource k w (resources p)\<rparr>)"
  by (auto simp: nonneg_def setResource_def)

lemma nonneg_removeResources: "nonneg p \<Longrightarrow> nonneg (snd (removeResources k n p))"
  by (auto simp: removeResources_def nonneg_setResource split: option.splits)

lemma nonneg_payEach: "nonneg p \<Longrightarrow> nonneg (payEach es p)"
  by (induction es arbitrary: p) (auto simp: nonneg_removeResources)

lemma nonneg_payFor: "nonneg p \<Longrightarrow> nonneg (snd (payFor b p))"
  by (auto simp: payFor_def nonneg_payEach split: option.splits)

lemma total_remove_one:
  "getResource (resources p) k = Some v \<Longrightarrow> 0 < v \<Longrightarrow>
   getTotalResources (snd (removeResources k 1 p)) = getTotalResources p - 1"
  by (auto simp: removeResources_def getTotalResources_def getResource_def setResource_def split: if_splits)

lemma noGain_refl [simp]: "noGain p p"
  by (simp add: noGain_def)

lemma noGain_remove_one:
  "getResource (resources p) k = Some v \<Longrightarrow> 0 < v \<Longrightarrow> noGain p (snd (removeResources k 1 p))"
  by (auto simp: noGain_def removeResources_def getResource_def setResource_def split: if_splits)

lemma noGain_trans: "noGain p q \<Longrightarrow> noGain q r \<Longrightarrow> noGain p r"
  by (auto simp: noGain_def)

lemma discardPass_effect:
  "discardPass ks p r d = (p', r', d') \<Longrightarrow>
     getTotalResources p' = getTotalResources p - (r - r')
   \<and> r' \<le> r \<and> (0 \<le> r \<longrightarrow> 0 \<le> r')
   \<and> int (length d') = int (length d) + (r - r')
   \<and> (nonneg p \<longrightarrow> nonneg p')
   \<and> noGain p p'"
proof (induction ks arbitrary: p r d)
  case Nil
  then show ?case by simp
next
  case (Cons k ks)
  show ?case
  proof (cases "r \<le> 0")
    case True
    with Cons.prems show ?thesis by simp
  next
    case False
    show ?thesis
    proof (cases "case getResource (resources p) k of Some v \<Rightarrow> 0 < v | None \<Rightarrow> False")
      case True
      then obtain v where v: "getResource (resources p) k = Some v" "0 < v"
        by (auto split: option.splits)
      from Cons.prems False True
      have "discardPass ks (snd (removeResources k 1 p)) (r - 1) (d @ [k]) = (p', r', d')"
        by simp
      note ih = Cons.IH[OF this]
      from ih have "noGain (snd (removeResources k 1 p)) p'" by simp
      then have ng: "noGain p p'"
        by (rule noGain_trans[OF noGain_remove_one[OF v]])
      from ih total_remove_one[OF v] nonneg_removeResources[of p k 1] False ng
      show ?thesis by auto
    next
      case F2: False
      from Cons.prems False F2 have "discardPass ks p r d = (p', r', d')" by simp
      from Cons.IH[OF this] show ?thesis by auto
    qed
  qed
qed

lemma discardPass_progress:
  "discardPass ks p r d = (p', r', d') \<Longrightarrow> 0 < r \<Longrightarrow>
   \<exists>k \<in> set ks. \<exists>v. getResource (resources p) k = Some v \<and> 0 < v \<Longrightarrow> r' < r"
proof (induction ks arbitrary: p r d)
  case Nil
  then show ?case by simp
next
  case (Cons k ks)
  show ?case
  proof (cases "case getResource (resources p) k of Some v \<Rightarrow> 0 < v | None \<Rightarrow> False")
    case True
    with Cons.prems
    have "discardPass ks (snd (removeResources k 1 p)) (r - 1) (d @ [k]) = (p', r', d')"
      by simp
    from discardPass_effect[OF this] show ?thesis by simp
  next
    case False
    with Cons.prems have 1: "discardPass ks p r d = (p', r', d')" by simp
    from False Cons.prems(3)
    have "\<exists>k \<in> set ks. \<exists>v. getResource (resources p) k = Some v \<and> 0 < v"
      by (auto split: option.splits)
    from Cons.IH[OF 1 Cons.prems(2) this] show ?thesis .
  qed
qed

lemma positive_total_has_positive:
  "0 < getTotalResources p \<Longrightarrow>
   \<exists>k \<in> set resourceTypes. \<exists>v. getResource (resources p) k = Some v \<and> 0 < v"
  by (auto simp: getTotalResources_def resourceTypes_def getResource_def)

lemma discardLoop_returns:
  "r \<le> getTotalResources p \<Longrightarrow> nat r = n \<Longrightarrow>
   \<exists>p' d'. discardLoop resourceTypes p r d = Some (p', d')
     \<and> getTotalResources p' = getTotalResources p - max 0 r
     \<and> int (length d') = int (length d) + max 0 r
     \<and> (nonneg p \<longrightarrow> nonneg p') \<and> noGain p p'"
proof (induction n arbitrary: p r d rule: less_induct)
  case (less n)
  show ?case
  proof (cases "0 < r")
    case False
    then show ?thesis by (subst discardLoop.simps) simp
  next
    case True
    obtain p1 r1 d1 where pass: "discardPass resourceTypes p r d = (p1, r1, d1)"
      by (cases "discardPass resourceTypes p r d") auto
    from True less.prems have "0 < getTotalResources p" by simp
    from discardPass_progress[OF pass True positive_total_has_positive[OF this]]
    have lt: "r1 < r" .
    from discardPass_effect[OF pass] True
    have eff: "getTotalResources p1 = getTotalResources p - (r - r1)" "0 \<le> r1"
      "int (length d1) = int (length d) + (r - r1)" "nonneg p \<longrightarrow> nonneg p1"
      "noGain p p1"
      by auto
    have "nat r1 < n" using lt eff(2) less.prems(2) by auto
    moreover have "r1 \<le> getTotalResources p1" using eff(1) less.prems(1) by simp
    ultimately obtain p' d' where
      rec: "discardLoop resourceTypes p1 r1 d1 = Some (p', d')"
        "getTotalResources p' = getTotalResources p1 - max 0 r1"
        "int (length d') = int (length d1) + max 0 r1"
        "nonneg p1 \<longrightarrow> nonneg p'" "noGain p1 p'"
      using less.IH[of "nat r1" r1 p1 d1] by auto
    have "discardLoop resourceTypes p r d = Some (p', d')"
      using True pass rec(1) by (subst discardLoop.simps) simp
    with rec eff True noGain_trans[OF eff(5) rec(5)] show ?thesis by auto
  qed
qed

lemma discardHalf_returns:
  "\<exists>p' d'. discardHalf p = Some (p', d')
     \<and> getTotalResources p' =
         (if getTotalResources p \<le> 7 then getTotalResources p
          else getTotalResources p - getTotalResources p div 2)
     \<and> int (length d') = (if getTotalResources p \<le> 7 then 0 else getTotalResources p div 2)
     \<and> (nonneg p \<longrightarrow> nonneg p') \<and> noGain p p'"
proof (cases "getTotalResources p \<le> 7")
  case True
  then show ?thesis by (simp add: discardHalf_def)
next
  case False
  then have "getTotalResources p div 2 \<le> getTotalResources p" by simp
  from discardLoop_returns[OF this refl, of "[]"] False
  show ?thesis by (auto simp: discardHalf_def Let_def)
qed

text \<open>
  Claim C10. For a name that is one of the player's five counters,
  \<^verbatim>\<open>removeResources(kind, n)\<close> returns true and sets that counter to
  \<open>max 0 (previous - n)\<close>, leaving the other counters alone: it clamps at zero and does
  not fail when the player holds fewer than \<open>n\<close>. It returns false exactly for a name
  that is not one of the five, and then changes nothing. No counter becomes negative
  through \<^verbatim>\<open>removeResources\<close>, \<^verbatim>\<open>payFor\<close> or \<^verbatim>\<open>discardHalf\<close> (which
  always returns).
\<close>

theorem removeResources_clamps:
  "(getResource (resources p) k = Some v \<longrightarrow>
      fst (removeResources k n p) = True
      \<and> getResource (resources (snd (removeResources k n p))) k = Some (max 0 (v - n))
      \<and> (\<forall>k'. k' \<noteq> k \<longrightarrow>
            getResource (resources (snd (removeResources k n p))) k' = getResource (resources p) k'))
   \<and> (fst (removeResources k n p) = False \<longleftrightarrow> k \<notin> set resourceTypes)
   \<and> (k \<notin> set resourceTypes \<longrightarrow> snd (removeResources k n p) = p)
   \<and> (nonneg p \<longrightarrow>
        nonneg (snd (removeResources k n p))
        \<and> nonneg (snd (payFor b p))
        \<and> (\<exists>p' d. discardHalf p = Some (p', d) \<and> nonneg p'))"
proof (intro conjI impI allI)
  assume v: "getResource (resources p) k = Some v"
  show "fst (removeResources k n p) = True"
    by (simp add: removeResources_known[OF v])
  show "getResource (resources (snd (removeResources k n p))) k = Some (max 0 (v - n))"
    by (simp add: removeResources_known[OF v] getResource_setResource_same[OF v])
  fix k' assume "k' \<noteq> k"
  then show "getResource (resources (snd (removeResources k n p))) k' = getResource (resources p) k'"
    by (simp add: removeResources_known[OF v] getResource_setResource_other)
next
  show "fst (removeResources k n p) = False \<longleftrightarrow> k \<notin> set resourceTypes"
    using getResource_None_iff[of "resources p" k]
    by (auto simp: removeResources_def split: option.splits)
next
  assume "k \<notin> set resourceTypes"
  then show "snd (removeResources k n p) = p"
    using getResource_None_iff[of "resources p" k] by (simp add: removeResources_unknown)
next
  assume nn: "nonneg p"
  show "nonneg (snd (removeResources k n p))" by (rule nonneg_removeResources[OF nn])
  show "nonneg (snd (payFor b p))" by (rule nonneg_payFor[OF nn])
  from discardHalf_returns[of p] nn
  show "\<exists>p' d. discardHalf p = Some (p', d) \<and> nonneg p'" by blast
qed

theorem removeResources_clamps_witness:
  "getResource (resources ledgerExample) ''lumber'' = Some 2
   \<and> getResource (resources (snd (removeResources ''lumber'' 5 ledgerExample))) ''lumber'' = Some 0
   \<and> fst (removeResources ''lumber'' 5 ledgerExample) = True
   \<and> ''gold'' \<notin> set resourceTypes
   \<and> snd (removeResources ''gold'' 5 ledgerExample) = ledgerExample
   \<and> nonneg ledgerExample
   \<and> nonneg (snd (payFor ''road'' ledgerExample))
   \<and> (\<exists>p' d. discardHalf ledgerExample = Some (p', d) \<and> nonneg p')"
  using removeResources_clamps[of ledgerExample "''lumber''" 2 5 "''road''"]
        removeResources_clamps[of ledgerExample "''gold''" 0 5 "''road''"]
  by (simp add: ledgerExample_def newPlayer_def getResource_def nonneg_def resourceTypes_def)

subsection \<open>Upgrading a settlement to a city\<close>

lemma map_fst_map_entry [simp]: "map fst (AList.map_entry k f al) = map fst al"
  by (induction al) auto

lemma removeResources_frame:
  "snd (removeResources k n p) = p\<lparr>resources := resources (snd (removeResources k n p))\<rparr>"
  by (simp add: removeResources_def split: option.splits)

lemma payEach_frame: "payEach es p = p\<lparr>resources := resources (payEach es p)\<rparr>"
proof (induction es arbitrary: p)
  case Nil
  then show ?case by simp
next
  case (Cons e es)
  have "payEach (e # es) p = payEach es (snd (removeResources (fst e) (snd e) p))" by simp
  also have "\<dots> = (snd (removeResources (fst e) (snd e) p))
       \<lparr>resources := resources (payEach es (snd (removeResources (fst e) (snd e) p)))\<rparr>"
    by (rule Cons.IH)
  also have "\<dots> = p\<lparr>resources := resources (payEach es (snd (removeResources (fst e) (snd e) p)))\<rparr>"
    by (subst removeResources_frame) simp
  finally show ?case by simp
qed

lemma payFor_frame: "snd (payFor bt p) = p\<lparr>resources := resources (snd (payFor bt p))\<rparr>"
  using payEach_frame by (auto simp: payFor_def split: option.splits)

lemma length_removePiece:
  "s \<in> set xs \<Longrightarrow> length (removePiece (piece_id s) xs) + 1 = length xs"
  by (induction xs) auto

lemma removePiece_absent:
  "distinct (map piece_id xs) \<Longrightarrow> i \<notin> piece_id ` set (removePiece i xs)"
  by (induction xs) auto

text \<open>
  Claim C7. \<^verbatim>\<open>Player.buildCity(vertex)\<close> succeeds exactly when the vertex's building is
  a settlement owned by the player, the player can afford a city and has a city left.
  On success the vertex holds the new city, the result carries the city and the removed
  settlement, that settlement leaves the player's \<^verbatim>\<open>settlements\<close>,
  \<^verbatim>\<open>settlementsRemaining\<close> grows by one, and a player with three settlements, no city,
  no point cards and no achievement goes from score 3 to score 4.
\<close>

theorem buildCity_upgrade:
  assumes v: "map_of (vertices b) vk = Some v"
  shows "(fst (buildCity vk fresh p b) \<noteq> None \<longleftrightarrow>
            (\<exists>s. building v = Some s \<and> ptype s = Settlement \<and> owner s = pid p)
            \<and> canAfford ''city'' p \<and> 0 < citiesRemaining p)
       \<and> (\<forall>s. building v = Some s \<and> ptype s = Settlement \<and> owner s = pid p
               \<and> canAfford ''city'' p \<and> 0 < citiesRemaining p \<longrightarrow>
             (let city = \<lparr> piece_id = fresh, owner = pid p, ptype = City, placedAt = Some vk \<rparr>;
                  p' = fst (snd (buildCity vk fresh p b));
                  b' = snd (snd (buildCity vk fresh p b))
              in fst (buildCity vk fresh p b) = Some (city, s)
                 \<and> map_of (vertices b') vk = Some (v\<lparr>building := Some city\<rparr>)
                 \<and> settlements p' = removePiece (piece_id s) (settlements p)
                 \<and> (distinct (map piece_id (settlements p)) \<longrightarrow>
                      piece_id s \<notin> piece_id ` set (settlements p'))
                 \<and> settlementsRemaining p' = settlementsRemaining p + 1
                 \<and> cities p' = cities p @ [city]
                 \<and> citiesRemaining p' = citiesRemaining p - 1
                 \<and> (s \<in> set (settlements p) \<and> length (settlements p) = 3 \<and> cities p = []
                      \<and> victoryPointCards p = 0 \<and> \<not> hasLongestRoad p \<and> \<not> hasLargestArmy p \<longrightarrow>
                      victoryPoints (updateVictoryPoints p) = 3 \<and> victoryPoints p' = 4)))"
proof (intro conjI allI impI)
  show "fst (buildCity vk fresh p b) \<noteq> None \<longleftrightarrow>
            (\<exists>s. building v = Some s \<and> ptype s = Settlement \<and> owner s = pid p)
            \<and> canAfford ''city'' p \<and> 0 < citiesRemaining p"
    using v
    by (auto simp: buildCity_def vertex_upgradeToCity_def canPlaceCity_def newPiece_def Let_def
             split: option.splits)
next
  fix s
  assume a: "building v = Some s \<and> ptype s = Settlement \<and> owner s = pid p
               \<and> canAfford ''city'' p \<and> 0 < citiesRemaining p"
  define city where "city = \<lparr> piece_id = fresh, owner = pid p, ptype = City, placedAt = Some vk \<rparr>"
  define q where "q = snd (payFor ''city'' p)"
  have q: "q = p\<lparr>resources := resources q\<rparr>" unfolding q_def by (rule payFor_frame)
  have up: "vertex_upgradeToCity (newPiece fresh (pid p) City) vk b =
      Some (city, s, b\<lparr>vertices := AList.map_entry vk (\<lambda>v. v\<lparr>building := Some city\<rparr>) (vertices b)\<rparr>)"
    using v a by (simp add: vertex_upgradeToCity_def canPlaceCity_def newPiece_def city_def Let_def)
  have res: "buildCity vk fresh p b =
      (Some (city, s),
       updateVictoryPoints
         (q\<lparr> cities := cities q @ [city], citiesRemaining := citiesRemaining q - 1,
             settlementsRemaining := settlementsRemaining q + 1,
             settlements := removePiece (piece_id s) (settlements q) \<rparr>),
       b\<lparr>vertices := AList.map_entry vk (\<lambda>v. v\<lparr>building := Some city\<rparr>) (vertices b)\<rparr>)"
    using a by (simp add: buildCity_def up Let_def q_def)
  have fields: "settlements q = settlements p" "cities q = cities p"
    "citiesRemaining q = citiesRemaining p" "settlementsRemaining q = settlementsRemaining p"
    "victoryPointCards q = victoryPointCards p" "hasLongestRoad q = hasLongestRoad p"
    "hasLargestArmy q = hasLargestArmy p"
    by (subst q, simp)+
  show "let city = \<lparr> piece_id = fresh, owner = pid p, ptype = City, placedAt = Some vk \<rparr>;
                  p' = fst (snd (buildCity vk fresh p b));
                  b' = snd (snd (buildCity vk fresh p b))
              in fst (buildCity vk fresh p b) = Some (city, s)
                 \<and> map_of (vertices b') vk = Some (v\<lparr>building := Some city\<rparr>)
                 \<and> settlements p' = removePiece (piece_id s) (settlements p)
                 \<and> (distinct (map piece_id (settlements p)) \<longrightarrow>
                      piece_id s \<notin> piece_id ` set (settlements p'))
                 \<and> settlementsRemaining p' = settlementsRemaining p + 1
                 \<and> cities p' = cities p @ [city]
                 \<and> citiesRemaining p' = citiesRemaining p - 1
                 \<and> (s \<in> set (settlements p) \<and> length (settlements p) = 3 \<and> cities p = []
                      \<and> victoryPointCards p = 0 \<and> \<not> hasLongestRoad p \<and> \<not> hasLargestArmy p \<longrightarrow>
                      victoryPoints (updateVictoryPoints p) = 3 \<and> victoryPoints p' = 4)"
    unfolding Let_def res city_def[symmetric]
    using v length_removePiece[of s "settlements p"] removePiece_absent[of "settlements p" "piece_id s"]
    by (auto simp: fields updateVictoryPoints_def AList.map_of_map_entry)
qed

theorem buildCity_upgrade_witness:
  "map_of (vertices upgradeBoard) (1, -1, 4) = Some upgradeVertex
   \<and> fst (buildCity (1, -1, 4) 7 upgradePlayer upgradeBoard)
       = Some (\<lparr> piece_id = 7, owner = 1, ptype = City, placedAt = Some (1, -1, 4) \<rparr>, upgradeSettlement)
   \<and> settlementsRemaining (fst (snd (buildCity (1, -1, 4) 7 upgradePlayer upgradeBoard))) = 3
   \<and> victoryPoints (updateVictoryPoints upgradePlayer) = 3
   \<and> victoryPoints (fst (snd (buildCity (1, -1, 4) 7 upgradePlayer upgradeBoard))) = 4"
proof -
  have v: "map_of (vertices upgradeBoard) (1, -1, 4) = Some upgradeVertex"
    by (simp add: upgradeBoard_def newBoard_def)
  have a: "building upgradeVertex = Some upgradeSettlement \<and> ptype upgradeSettlement = Settlement
      \<and> owner upgradeSettlement = pid upgradePlayer \<and> canAfford ''city'' upgradePlayer
      \<and> 0 < citiesRemaining upgradePlayer"
    by (simp add: upgradeVertex_def newVertex_def upgradeSettlement_def upgradePlayer_def
          newPlayer_def canAfford_def costs_def lacks_def getResource_def)
  have s: "upgradeSettlement \<in> set (settlements upgradePlayer) \<and> length (settlements upgradePlayer) = 3
      \<and> cities upgradePlayer = [] \<and> victoryPointCards upgradePlayer = 0
      \<and> \<not> hasLongestRoad upgradePlayer \<and> \<not> hasLargestArmy upgradePlayer"
    by (simp add: upgradePlayer_def newPlayer_def)
  from buildCity_upgrade[OF v, of 7 upgradePlayer] a s v
  show ?thesis by (simp add: Let_def upgradePlayer_def newPlayer_def)
qed

subsection \<open>Scores and the end of the game\<close>

lemma score_updateVictoryPoints [simp]: "score (updateVictoryPoints p) = score p"
  by (simp add: score_def updateVictoryPoints_def)

lemma checkPlayers_None:
  "checkPlayers i ps = (ps', None) \<Longrightarrow>
     ps' = map updateVictoryPoints ps \<and> (\<forall>p \<in> set ps. score p < targetVictoryPoints)"
proof (induction ps arbitrary: i ps')
  case Nil
  then show ?case by simp
next
  case (Cons p ps)
  from Cons.prems have lt: "\<not> targetVictoryPoints \<le> victoryPoints (updateVictoryPoints p)"
    by (auto simp: Let_def split: if_splits)
  with Cons.prems obtain qs where qs: "checkPlayers (Suc i) ps = (qs, None)"
      and ps': "ps' = updateVictoryPoints p # qs"
    by (auto simp: Let_def split: prod.splits)
  from Cons.IH[OF qs] ps' lt show ?case by (auto simp: score_def)
qed

lemma checkPlayers_Some:
  "checkPlayers i ps = (ps', Some w) \<Longrightarrow>
     i \<le> w \<and> w - i < length ps \<and> length ps' = length ps
     \<and> map score ps' = map score ps
     \<and> targetVictoryPoints \<le> score (ps ! (w - i))
     \<and> victoryPoints (ps' ! (w - i)) = score (ps ! (w - i))
     \<and> (\<forall>k < w - i. score (ps ! k) < targetVictoryPoints)"
proof (induction ps arbitrary: i ps')
  case Nil
  then show ?case by simp
next
  case (Cons p ps)
  show ?case
  proof (cases "targetVictoryPoints \<le> victoryPoints (updateVictoryPoints p)")
    case True
    with Cons.prems have "ps' = updateVictoryPoints p # ps" "w = i" by (auto simp: Let_def)
    with True show ?thesis by (simp add: score_def updateVictoryPoints_def)
  next
    case False
    with Cons.prems obtain qs where qs: "checkPlayers (Suc i) ps = (qs, Some w)"
      and ps': "ps' = updateVictoryPoints p # qs"
      by (auto simp: Let_def split: prod.splits)
    from Cons.IH[OF qs] have ih: "Suc i \<le> w" "w - Suc i < length ps" "length qs = length ps"
      "map score qs = map score ps" "targetVictoryPoints \<le> score (ps ! (w - Suc i))"
      "victoryPoints (qs ! (w - Suc i)) = score (ps ! (w - Suc i))"
      "\<forall>k < w - Suc i. score (ps ! k) < targetVictoryPoints" by auto
    from ih(1) have wi: "w - i = Suc (w - Suc i)" by simp
    have "\<forall>k < w - i. score ((p # ps) ! k) < targetVictoryPoints"
    proof (intro allI impI)
      fix k assume "k < w - i"
      then show "score ((p # ps) ! k) < targetVictoryPoints"
        using False ih(7) wi by (cases k) (auto simp: score_def)
    qed
    with ih ps' wi show ?thesis by simp
  qed
qed

lemma players_endSetupTurn [simp]: "players (endSetupTurn g) = players g"
  by (simp add: endSetupTurn_def Let_def logEvent_def)

lemma players_endNormalTurn: "endNormalTurn g = Inr g1 \<Longrightarrow> players g1 = players g"
  by (auto simp: endNormalTurn_def Let_def logEvent_def split: if_splits option.splits)

lemma endSetupTurn_phase:
  "gamePhase g = Setup \<Longrightarrow>
     gamePhase (endSetupTurn g) \<noteq> Finished \<and> winner (endSetupTurn g) = winner g"
  by (simp add: endSetupTurn_def Let_def logEvent_def)

lemma endNormalTurn_phase:
  "endNormalTurn g = Inr g1 \<Longrightarrow> gamePhase g1 = gamePhase g \<and> winner g1 = winner g"
  by (auto simp: endNormalTurn_def Let_def logEvent_def split: if_splits option.splits)

lemma checkWinCondition_result:
  "snd (checkWinCondition g1) = g' \<Longrightarrow>
   (if \<exists>p \<in> set (players g1). targetVictoryPoints \<le> score p
    then gamePhase g' = Finished
         \<and> (\<exists>i. winner g' = Some i \<and> i < length (players g1)
                \<and> targetVictoryPoints \<le> score (players g1 ! i)
                \<and> (\<forall>k < i. score (players g1 ! k) < targetVictoryPoints)
                \<and> victoryPoints (players g' ! i) = score (players g1 ! i))
    else players g' = map updateVictoryPoints (players g1)
         \<and> winner g' = winner g1 \<and> gamePhase g' = gamePhase g1)
   \<and> map score (players g') = map score (players g1)"
proof (cases "snd (checkPlayers 0 (players g1))")
  case None
  then obtain ps where c: "checkPlayers 0 (players g1) = (ps, None)"
    by (cases "checkPlayers 0 (players g1)") auto
  from checkPlayers_None[OF c] have ps: "ps = map updateVictoryPoints (players g1)"
    and lt: "\<forall>p \<in> set (players g1). score p < targetVictoryPoints" by auto
  assume "snd (checkWinCondition g1) = g'"
  with c have g': "g' = g1\<lparr>players := ps\<rparr>" by (simp add: checkWinCondition_def)
  from lt have "\<not> (\<exists>p \<in> set (players g1). targetVictoryPoints \<le> score p)" by auto
  with g' ps show ?thesis by (simp add: comp_def)
next
  case (Some w)
  then obtain ps where c: "checkPlayers 0 (players g1) = (ps, Some w)"
    by (cases "checkPlayers 0 (players g1)") auto
  from checkPlayers_Some[OF c] have w: "w < length (players g1)"
    "map score ps = map score (players g1)"
    "targetVictoryPoints \<le> score (players g1 ! w)"
    "victoryPoints (ps ! w) = score (players g1 ! w)"
    "\<forall>k < w. score (players g1 ! k) < targetVictoryPoints" by auto
  assume "snd (checkWinCondition g1) = g'"
  with c have g': "g' = logEvent (Wins (name (ps ! w)) (victoryPoints (ps ! w)))
                   (g1\<lparr>players := ps, winner := Some w, gamePhase := Finished\<rparr>)"
    by (simp add: checkWinCondition_def)
  from w(1,3) have "\<exists>p \<in> set (players g1). targetVictoryPoints \<le> score p"
    using nth_mem by blast
  with g' w show ?thesis by (auto simp: logEvent_def)
qed

lemma placeSettlement_frame:
  assumes "placeSettlement vk who g = Inr (r, g')"
  shows "gamePhase g' = gamePhase g \<and> winner g' = winner g
     \<and> length (players g') = length (players g)
     \<and> (\<forall>j < length (players g). resolvePlayer g who \<noteq> Some j \<longrightarrow> players g' ! j = players g ! j)"
  using assms
  by (auto simp: placeSettlement_def placeSetupSettlement_def placeNormalSettlement_def Let_def
        logEvent_def split: if_splits option.splits prod.splits)

lemma placeRoad_frame:
  assumes "placeRoad ek who g = Inr (r, g')"
  shows "gamePhase g' = gamePhase g \<and> winner g' = winner g
     \<and> length (players g') = length (players g)
     \<and> (\<forall>j < length (players g). resolvePlayer g who \<noteq> Some j \<longrightarrow> players g' ! j = players g ! j)"
  using assms
  by (auto simp: placeRoad_def placeSetupRoad_def placeNormalRoad_def Let_def
        logEvent_def split: if_splits option.splits prod.splits)

text \<open>
  Claim C8, as amended. \<^verbatim>\<open>Game.endTurn\<close> recomputes the players' scores in order
  (1 per settlement, 2 per city, the point cards, 2 for the longest road, 2 for the largest
  army) and the first player in that order with at least 10 ends the game: the phase is
  \<^verbatim>\<open>finished\<close> and that player is the winner. With no such player every score is
  recomputed and phase and winner stay. So after a turn end the game is never in a
  phase other than \<^verbatim>\<open>finished\<close> while some player's score is at least 10.
  A placement, by \<^verbatim>\<open>placeSettlement\<close> or \<^verbatim>\<open>placeRoad\<close>, whether it succeeds or
  not, leaves the phase, the winner and every player other than the placing one as they
  were.
\<close>

theorem endTurn_checks_win:
  assumes "endTurn g = Inr g'"
  shows "(\<forall>p. score p = int (length (settlements p)) * 1 + int (length (cities p)) * 2
                   + victoryPointCards p
                   + (if hasLongestRoad p then 2 else 0) + (if hasLargestArmy p then 2 else 0))
     \<and> map score (players g') = map score (players g)
     \<and> (if \<exists>p \<in> set (players g). targetVictoryPoints \<le> score p
        then gamePhase g' = Finished
             \<and> (\<exists>i. winner g' = Some i \<and> i < length (players g)
                    \<and> targetVictoryPoints \<le> score (players g ! i)
                    \<and> (\<forall>k < i. score (players g ! k) < targetVictoryPoints)
                    \<and> victoryPoints (players g' ! i) = score (players g ! i))
        else players g' = map updateVictoryPoints (players g)
             \<and> winner g' = winner g
             \<and> (gamePhase g' = Finished \<longleftrightarrow> gamePhase g = Finished))
     \<and> ((\<exists>p \<in> set (players g'). targetVictoryPoints \<le> score p) \<longrightarrow> gamePhase g' = Finished)
     \<and> (\<forall>g0 vk who r g1. placeSettlement vk who g0 = Inr (r, g1) \<longrightarrow>
           gamePhase g1 = gamePhase g0 \<and> winner g1 = winner g0
           \<and> length (players g1) = length (players g0)
           \<and> (\<forall>j < length (players g0).
                 resolvePlayer g0 who \<noteq> Some j \<longrightarrow> players g1 ! j = players g0 ! j))
     \<and> (\<forall>g0 ek who r g1. placeRoad ek who g0 = Inr (r, g1) \<longrightarrow>
           gamePhase g1 = gamePhase g0 \<and> winner g1 = winner g0
           \<and> length (players g1) = length (players g0)
           \<and> (\<forall>j < length (players g0).
                 resolvePlayer g0 who \<noteq> Some j \<longrightarrow> players g1 ! j = players g0 ! j))"
proof -
  from assms obtain g1 where g1: "snd (checkWinCondition g1) = g'"
    and adv: "if gamePhase g = Setup then g1 = endSetupTurn g
              else if gamePhase g = Playing then endNormalTurn g = Inr g1 else g1 = g"
    by (auto simp: endTurn_def split: if_splits sum.splits)
  from adv have pl: "players g1 = players g"
    by (auto simp: players_endNormalTurn split: if_splits)
  from adv have ph: "(gamePhase g1 = Finished \<longleftrightarrow> gamePhase g = Finished) \<and> winner g1 = winner g"
    using endSetupTurn_phase[of g] endNormalTurn_phase[of g g1]
    by (auto split: if_splits)
  have sc: "\<forall>p. score p = int (length (settlements p)) * 1 + int (length (cities p)) * 2
                   + victoryPointCards p
                   + (if hasLongestRoad p then 2 else 0) + (if hasLargestArmy p then 2 else 0)"
    by (simp add: score_def updateVictoryPoints_def)
  have ms: "map score (players g') = map score (players g)"
    using checkWinCondition_result[OF g1] pl by simp
  have main: "if \<exists>p \<in> set (players g). targetVictoryPoints \<le> score p
        then gamePhase g' = Finished
             \<and> (\<exists>i. winner g' = Some i \<and> i < length (players g)
                    \<and> targetVictoryPoints \<le> score (players g ! i)
                    \<and> (\<forall>k < i. score (players g ! k) < targetVictoryPoints)
                    \<and> victoryPoints (players g' ! i) = score (players g ! i))
        else players g' = map updateVictoryPoints (players g)
             \<and> winner g' = winner g
             \<and> (gamePhase g' = Finished \<longleftrightarrow> gamePhase g = Finished)"
    using checkWinCondition_result[OF g1] pl ph by (auto split: if_splits)
  have "set (map score (players g')) = set (map score (players g))" using ms by simp
  then have same: "(\<exists>p \<in> set (players g'). targetVictoryPoints \<le> score p)
       \<longleftrightarrow> (\<exists>p \<in> set (players g). targetVictoryPoints \<le> score p)"
    by (auto simp: image_iff) (metis imageE imageI)+
  have last: "(\<exists>p \<in> set (players g'). targetVictoryPoints \<le> score p) \<longrightarrow> gamePhase g' = Finished"
    using main same by (auto split: if_splits)
  have ps: "\<forall>g0 vk who r g1. placeSettlement vk who g0 = Inr (r, g1) \<longrightarrow>
           gamePhase g1 = gamePhase g0 \<and> winner g1 = winner g0
           \<and> length (players g1) = length (players g0)
           \<and> (\<forall>j < length (players g0).
                 resolvePlayer g0 who \<noteq> Some j \<longrightarrow> players g1 ! j = players g0 ! j)"
    using placeSettlement_frame by blast
  have pr: "\<forall>g0 ek who r g1. placeRoad ek who g0 = Inr (r, g1) \<longrightarrow>
           gamePhase g1 = gamePhase g0 \<and> winner g1 = winner g0
           \<and> length (players g1) = length (players g0)
           \<and> (\<forall>j < length (players g0).
                 resolvePlayer g0 who \<noteq> Some j \<longrightarrow> players g1 ! j = players g0 ! j)"
    using placeRoad_frame by blast
  from sc ms main last ps pr show ?thesis by (intro conjI)
qed

lemma lateGame_place:
  "\<exists>s g1. placeSettlement (0, -1, 3) None lateGame = Inr (Some s, g1)
      \<and> gamePhase g1 = Playing \<and> winner g1 = None
      \<and> players g1 ! 0 \<in> set (players g1) \<and> victoryPoints (players g1 ! 0) = 10
      \<and> length (players g1) = 2 \<and> currentPlayerIndex g1 = 0"
  by (simp add: placeSettlement_def placeNormalSettlement_def resolvePlayer_def getCurrentPlayer_def
        lateGame_def newGame_def latePlayer_def newPlayer_def lateBoard_def newBoard_def newVertex_def
        buildSettlement_def vertex_placeSettlement_def canPlaceSettlement_def canAfford_def costs_def
        lacks_def getResource_def setResource_def payFor_def removeResources_def newPiece_def
        updateVictoryPoints_def Let_def)

text \<open>
  Claim C8 as stated fails for placements: no placement path calls
  \<^verbatim>\<open>checkWinCondition\<close>. A settlement that brings its owner to 10 points leaves the
  game in the phase \<^verbatim>\<open>playing\<close>.
\<close>

theorem placement_skips_win_check:
  "\<not> (\<forall>g vk who s g'. placeSettlement vk who g = Inr (Some s, g') \<longrightarrow>
         (\<exists>p \<in> set (players g'). targetVictoryPoints \<le> victoryPoints p) \<longrightarrow>
         gamePhase g' = Finished)"
proof
  assume a: "\<forall>g vk who s g'. placeSettlement vk who g = Inr (Some s, g') \<longrightarrow>
         (\<exists>p \<in> set (players g'). targetVictoryPoints \<le> victoryPoints p) \<longrightarrow>
         gamePhase g' = Finished"
  from lateGame_place obtain s g1 where
    p: "placeSettlement (0, -1, 3) None lateGame = Inr (Some s, g1)"
    and q: "gamePhase g1 = Playing" "players g1 ! 0 \<in> set (players g1)"
      "victoryPoints (players g1 ! 0) = 10" by blast
  from q have "\<exists>p \<in> set (players g1). targetVictoryPoints \<le> victoryPoints p"
    by (auto simp: targetVictoryPoints_def intro!: bexI[of _ "players g1 ! 0"])
  with a p have "gamePhase g1 = Finished" by blast
  with q show False by simp
qed

lemma endTurn_returns:
  assumes "gamePhase g = Playing" "players g \<noteq> []" "0 \<le> currentPlayerIndex g"
  shows "\<exists>g'. endTurn g = Inr g'"
proof -
  let ?n = "int (length (players g))"
  let ?a = "currentPlayerIndex g + 1"
  have n: "0 < ?n" using assms(2) by simp
  have "0 \<le> ?a mod ?n" "?a mod ?n < ?n" using n by simp_all
  then have "nat (?a mod ?n) < length (players g)" by linarith
  with assms n \<open>0 \<le> ?a mod ?n\<close> show ?thesis
    by (simp add: endTurn_def endNormalTurn_def Let_def getCurrentPlayer_def)
qed

theorem endTurn_checks_win_witness:
  "\<exists>s g1 g2. placeSettlement (0, -1, 3) None lateGame = Inr (Some s, g1)
      \<and> gamePhase g1 = Playing \<and> endTurn g1 = Inr g2
      \<and> gamePhase g2 = Finished \<and> winner g2 = Some 0"
proof -
  from lateGame_place obtain s g1 where
    p: "placeSettlement (0, -1, 3) None lateGame = Inr (Some s, g1)"
    and q: "gamePhase g1 = Playing" "players g1 ! 0 \<in> set (players g1)"
      "victoryPoints (players g1 ! 0) = 10" "length (players g1) = 2" "currentPlayerIndex g1 = 0"
    by blast
  from q have "\<exists>g2. endTurn g1 = Inr g2" by (intro endTurn_returns) auto
  then obtain g2 where e: "endTurn g1 = Inr g2" ..
  have sc: "score (players g1 ! 0) = 10"
  proof -
    have "\<exists>s g1'. placeSettlement (0, -1, 3) None lateGame = Inr (Some s, g1')
        \<and> score (players g1' ! 0) = 10"
      by (simp add: placeSettlement_def placeNormalSettlement_def resolvePlayer_def getCurrentPlayer_def
        lateGame_def newGame_def latePlayer_def newPlayer_def lateBoard_def newBoard_def newVertex_def
        buildSettlement_def vertex_placeSettlement_def canPlaceSettlement_def canAfford_def costs_def
        lacks_def getResource_def setResource_def payFor_def removeResources_def newPiece_def
        updateVictoryPoints_def Let_def score_def)
    with p show ?thesis by auto
  qed
  with q(2) have ex: "\<exists>p \<in> set (players g1). targetVictoryPoints \<le> score p"
    by (auto simp: targetVictoryPoints_def intro!: bexI[of _ "players g1 ! 0"])
  note main = conjunct1[OF conjunct2[OF conjunct2[OF endTurn_checks_win[OF e]]]]
  from main ex have fin: "gamePhase g2 = Finished"
    and w: "\<exists>i. winner g2 = Some i \<and> i < length (players g1)
                    \<and> targetVictoryPoints \<le> score (players g1 ! i)
                    \<and> (\<forall>k < i. score (players g1 ! k) < targetVictoryPoints)
                    \<and> victoryPoints (players g2 ! i) = score (players g1 ! i)"
    by (simp_all only: if_True)
  from w obtain i where i: "winner g2 = Some i" "\<forall>k < i. score (players g1 ! k) < targetVictoryPoints"
    by blast
  have "i = 0"
  proof (rule ccontr)
    assume "i \<noteq> 0"
    then have "0 < i" by simp
    with i(2) have "score (players g1 ! 0) < targetVictoryPoints" by blast
    with sc show False by (simp add: targetVictoryPoints_def)
  qed
  with p q(1) e fin i(1) show ?thesis by blast
qed

subsection \<open>Placements in the setup phase\<close>

lemma shouldProduce_undefined [simp]: "\<not> shouldProduce h None"
  by (simp add: shouldProduce_def split: option.splits)

lemma settlement_collectResources_undefined [simp]: "settlement_collectResources b None s = []"
  by (simp add: settlement_collectResources_def producedBy_def split: option.splits)

lemma payFor_settlement_total:
  assumes "canAfford ''settlement'' p" "\<not> payForOverridden p"
  shows "getTotalResources (snd (payFor ''settlement'' p)) = getTotalResources p - 4"
  using assms
  by (simp add: payFor_def canAfford_def costs_def lacks_def getResource_def setResource_def
        removeResources_def getTotalResources_def)

lemma resources_updateVictoryPoints [simp]: "resources (updateVictoryPoints p) = resources p"
  by (simp add: updateVictoryPoints_def)

lemma getTotalResources_cong: "resources p = resources q \<Longrightarrow> getTotalResources p = getTotalResources q"
  by (simp add: getTotalResources_def)

text \<open>
  Claim C3 does not hold of the code. \<^verbatim>\<open>placeSetupSettlement\<close> and
  \<^verbatim>\<open>placeSetupRoad\<close> call \<^verbatim>\<open>buildSettlement\<close> and \<^verbatim>\<open>buildRoad\<close>, which test
  \<^verbatim>\<open>canAfford\<close> first, and replace \<^verbatim>\<open>payFor\<close> only after a placement succeeded.
  So in the setup phase a player who cannot afford the piece places nothing and the
  state is unchanged (a new player holds nothing and can afford neither piece); a
  player whose \<^verbatim>\<open>payFor\<close> was not yet replaced and who places a settlement pays its
  four resources; and \<^verbatim>\<open>collectResources()\<close> without a dice roll yields nothing, also
  in round 2.
\<close>

theorem setup_placement_not_free:
  "(gamePhase g = Setup \<and> resolvePlayer g who = Some i \<and> \<not> canAfford ''settlement'' (players g ! i)
      \<longrightarrow> placeSettlement vk who g = Inr (None, g))
   \<and> (gamePhase g = Setup \<and> resolvePlayer g who = Some i \<and> \<not> canAfford ''road'' (players g ! i)
      \<longrightarrow> placeRoad ek who g = Inr (None, g))
   \<and> \<not> canAfford ''settlement'' (newPlayer n nm) \<and> \<not> canAfford ''road'' (newPlayer n nm)
   \<and> (gamePhase g = Setup \<and> resolvePlayer g who = Some i \<and> \<not> payForOverridden (players g ! i)
        \<and> placeSettlement vk who g = Inr (Some s, g')
      \<longrightarrow> getTotalResources (players g' ! i) = getTotalResources (players g ! i) - 4)
   \<and> settlement_collectResources b None s = []"
proof (intro conjI impI)
  assume "gamePhase g = Setup \<and> resolvePlayer g who = Some i \<and> \<not> canAfford ''settlement'' (players g ! i)"
  then show "placeSettlement vk who g = Inr (None, g)"
    by (simp add: placeSettlement_def placeSetupSettlement_def buildSettlement_def)
next
  assume "gamePhase g = Setup \<and> resolvePlayer g who = Some i \<and> \<not> canAfford ''road'' (players g ! i)"
  then show "placeRoad ek who g = Inr (None, g)"
    by (simp add: placeRoad_def placeSetupRoad_def buildRoad_def)
next
  show "\<not> canAfford ''settlement'' (newPlayer n nm)"
    by (simp add: canAfford_def costs_def lacks_def newPlayer_def getResource_def)
  show "\<not> canAfford ''road'' (newPlayer n nm)"
    by (simp add: canAfford_def costs_def lacks_def newPlayer_def getResource_def)
next
  assume a: "gamePhase g = Setup \<and> resolvePlayer g who = Some i \<and> \<not> payForOverridden (players g ! i)
        \<and> placeSettlement vk who g = Inr (Some s, g')"
  let ?p = "players g ! i"
  from a have i: "i < length (players g)"
    by (auto simp: resolvePlayer_def getCurrentPlayer_def split: option.splits if_splits)
  from a have ps: "placeSetupSettlement vk (Some i) g = Inr (Some s, g')"
    by (auto simp: placeSettlement_def Let_def)
  then obtain p' b' where bs: "buildSettlement vk (nextPieceId g) ?p (board g) = (Some s, p', b')"
    and g': "players g' = (players g)[i := p'\<lparr>payForOverridden := True\<rparr>]"
    by (auto simp: placeSetupSettlement_def Let_def logEvent_def
             split: if_splits prod.splits option.splits)
  from bs have ca: "canAfford ''settlement'' ?p"
    by (auto simp: buildSettlement_def split: if_splits)
  from bs have "resources p' = resources (snd (payFor ''settlement'' ?p))"
    by (auto simp: buildSettlement_def Let_def split: if_splits option.splits)
  then have "getTotalResources p' = getTotalResources (snd (payFor ''settlement'' ?p))"
    by (rule getTotalResources_cong)
  also have "\<dots> = getTotalResources ?p - 4"
    using ca a by (intro payFor_settlement_total) auto
  finally have "getTotalResources (p'\<lparr>payForOverridden := True\<rparr>) = getTotalResources ?p - 4"
    by (simp add: getTotalResources_def)
  with g' i show "getTotalResources (players g' ! i) = getTotalResources (players g ! i) - 4"
    by simp
next
  show "settlement_collectResources b None s = []" by simp
qed

lemma setupGame_facts:
  "gamePhase (setupGame rs) = Setup \<and> resolvePlayer (setupGame rs) None = Some 0
   \<and> players (setupGame rs) ! 0 = newPlayer 1 ''Player red''
   \<and> getTotalResources (players (setupGame rs) ! 0) = 0"
  by (simp add: setupGame_def startGame_def addPlayer_def newGame_def logEvent_def maxPlayers_def
        resolvePlayer_def getCurrentPlayer_def Let_def getTotalResources_def newPlayer_def)

lemma fundedSetupGame_place:
  "\<exists>s g1. placeSettlement (0, -1, 3) None fundedSetupGame = Inr (Some s, g1)
      \<and> getTotalResources (players g1 ! 0) = 0"
  by (simp add: placeSettlement_def placeSetupSettlement_def resolvePlayer_def getCurrentPlayer_def
        fundedSetupGame_def lateGame_def newGame_def latePlayer_def newPlayer_def lateBoard_def newBoard_def newVertex_def
        buildSettlement_def vertex_placeSettlement_def canPlaceSettlement_def canAfford_def costs_def
        lacks_def getResource_def setResource_def payFor_def removeResources_def newPiece_def
        updateVictoryPoints_def Let_def logEvent_def getTotalResources_def)

theorem setup_placement_not_free_witness:
  "gamePhase (setupGame []) = Setup
   \<and> getTotalResources (players (setupGame []) ! 0) = 0
   \<and> placeSettlement (1, -1, 4) None (setupGame []) = Inr (None, setupGame [])
   \<and> placeRoad (0, 0, 0) None (setupGame []) = Inr (None, setupGame [])
   \<and> getTotalResources (players fundedSetupGame ! 0) = 4
   \<and> (\<exists>s g1. placeSettlement (0, -1, 3) None fundedSetupGame = Inr (Some s, g1)
         \<and> getTotalResources (players g1 ! 0) = 0)"
proof -
  note f = setupGame_facts[of "[]"]
  have n: "\<not> canAfford ''settlement'' (players (setupGame []) ! 0)"
      "\<not> canAfford ''road'' (players (setupGame []) ! 0)"
    using setup_placement_not_free[of "setupGame []" None 0 "(1, -1, 4)" "(0, 0, 0)" 1 "''Player red''"]
      f by simp_all
  from setup_placement_not_free[of "setupGame []" None 0 "(1, -1, 4)" "(0, 0, 0)"] f n
  have 1: "placeSettlement (1, -1, 4) None (setupGame []) = Inr (None, setupGame [])"
    and 2: "placeRoad (0, 0, 0) None (setupGame []) = Inr (None, setupGame [])"
    by blast+
  have 3: "getTotalResources (players fundedSetupGame ! 0) = 4"
    by (simp add: fundedSetupGame_def lateGame_def newGame_def latePlayer_def newPlayer_def
          getTotalResources_def)
  from f have 0: "gamePhase (setupGame []) = Setup"
    "getTotalResources (players (setupGame []) ! 0) = 0" by blast+
  from 0 1 2 3 fundedSetupGame_place show ?thesis by blast
qed

subsection \<open>Rolling the dice\<close>

lemma getResource_addResources:
  "getResource (resources (addResources r 1 p)) k
     = map_option (\<lambda>v. v + (if r = k then 1 else 0)) (getResource (resources p) k)"
  by (auto simp: addResources_def getResource_def setResource_def split: option.splits if_splits)

lemma getResource_fold_addResources:
  "getResource (resources (fold (\<lambda>resource. addResources resource 1) rs p)) k
     = map_option (\<lambda>v. v + int (count_list rs k)) (getResource (resources p) k)"
proof (induction rs arbitrary: p)
  case Nil
  then show ?case by (simp add: option.map_ident)
next
  case (Cons r rs)
  show ?case
    by (cases "getResource (resources p) k")
       (simp_all add: Cons.IH getResource_addResources)
qed

lemma count_list_concat: "count_list (concat xss) k = sum_list (map (\<lambda>xs. count_list xs k) xss)"
  by (induction xss) simp_all

lemma producedBy_cases:
  "(producedBy b (Some V) hk = [] \<and> (\<forall>k. \<not> tileProduces b V hk k))
   \<or> (\<exists>r. producedBy b (Some V) hk = [r] \<and> (\<forall>k. tileProduces b V hk k \<longleftrightarrow> k = r))"
proof (cases "map_of (hexes b) hk")
  case None
  then show ?thesis by (simp add: producedBy_def tileProduces_def)
next
  case (Some h)
  show ?thesis
  proof (cases "map_of resourceMap (terrain h)")
    case None
    then have "producedBy b (Some V) hk = []"
      using Some by (simp add: producedBy_def getResourceType_def)
    moreover have "\<forall>k. \<not> tileProduces b V hk k"
      using Some None by (simp add: tileProduces_def)
    ultimately show ?thesis by blast
  next
    case r: (Some r)
    show ?thesis
    proof (cases "shouldProduce h (Some V)")
      case True
      then have "producedBy b (Some V) hk = [r]"
        using Some r by (simp add: producedBy_def getResourceType_def)
      moreover have "\<forall>k. tileProduces b V hk k \<longleftrightarrow> k = r"
        using Some r True
        by (auto simp: tileProduces_def shouldProduce_def canProduceResources_def
              split: option.splits)
      ultimately show ?thesis by blast
    next
      case False
      then have "producedBy b (Some V) hk = []"
        using Some by (simp add: producedBy_def)
      moreover have "\<forall>k. \<not> tileProduces b V hk k"
        using Some False
        by (auto simp: tileProduces_def shouldProduce_def canProduceResources_def
              split: option.splits)
      ultimately show ?thesis by blast
    qed
  qed
qed

lemma count_producedBy:
  "int (count_list (producedBy b (Some V) hk) k) = (if tileProduces b V hk k then 1 else 0)"
  using producedBy_cases[of b V hk] by (elim disjE exE conjE) simp_all

lemma int_sum_list: "int (sum_list (map f xs)) = sum_list (map (\<lambda>x. int (f x)) xs)"
  by (induction xs) simp_all

lemma count_settlement_collect:
  "int (count_list (settlement_collectResources b (Some V) s) k)
     = (\<Sum>hk\<leftarrow>hexesOfPiece b s. if tileProduces b V hk k then 1 else 0)"
  by (simp add: settlement_collectResources_def count_list_concat int_sum_list comp_def
        count_producedBy)

lemma count_double: "count_list (concat (map (\<lambda>r. [r, r]) xs)) k = 2 * count_list xs k"
  by (induction xs) simp_all

lemma count_city_collect:
  "int (count_list (city_collectResources b (Some V) c) k)
     = (\<Sum>hk\<leftarrow>hexesOfPiece b c. if tileProduces b V hk k then 2 else 0)"
proof -
  have "\<And>hk. int (count_list (concat (map (\<lambda>r. [r, r]) (producedBy b (Some V) hk))) k)
          = (if tileProduces b V hk k then 2 else 0)"
    using count_producedBy[of b V _ k] by (simp only: count_double) (simp split: if_splits)
  then show ?thesis
    by (simp only: city_collectResources_def count_list_concat int_sum_list map_map comp_def)
qed

lemma collectFromDiceRoll_resources:
  "getResource (resources (fst (collectFromDiceRoll bf roll p))) k
     = map_option (\<lambda>v. v + int (count_list (snd (collectFromDiceRoll bf roll p)) k))
         (getResource (resources p) k)"
proof -
  have "fst (collectFromDiceRoll bf roll p)
      = fold (\<lambda>resource. addResources resource 1) (snd (collectFromDiceRoll bf roll p)) p"
    by (simp add: collectFromDiceRoll_def Let_def)
  then show ?thesis
    by (simp add: getResource_fold_addResources)
qed

lemma discardAll_returns:
  "\<exists>ps' evs. discardAll ps = Some (ps', evs) \<and> length ps' = length ps
     \<and> (\<forall>j < length ps.
           (if 7 < getTotalResources (ps ! j)
            then getTotalResources (ps' ! j)
                   = getTotalResources (ps ! j) - getTotalResources (ps ! j) div 2
                 \<and> noGain (ps ! j) (ps' ! j)
            else ps' ! j = ps ! j))"
proof (induction ps)
  case Nil
  then show ?case by simp
next
  case (Cons p ps)
  then obtain qs evs where ih: "discardAll ps = Some (qs, evs)" "length qs = length ps"
    "\<forall>j < length ps.
           (if 7 < getTotalResources (ps ! j)
            then getTotalResources (qs ! j)
                   = getTotalResources (ps ! j) - getTotalResources (ps ! j) div 2
                 \<and> noGain (ps ! j) (qs ! j)
            else qs ! j = ps ! j)" by blast
  show ?case
  proof (cases "7 < getTotalResources p")
    case True
    from discardHalf_returns[of p] True obtain p' d where
      d: "discardHalf p = Some (p', d)"
         "getTotalResources p' = getTotalResources p - getTotalResources p div 2"
         "noGain p p'" by auto
    have "discardAll (p # ps) = Some (p' # qs, DiscardedCards (name p') (length d) # evs)"
      using True d(1) ih(1) by simp
    moreover have "\<forall>j < length (p # ps).
           (if 7 < getTotalResources ((p # ps) ! j)
            then getTotalResources ((p' # qs) ! j)
                   = getTotalResources ((p # ps) ! j) - getTotalResources ((p # ps) ! j) div 2
                 \<and> noGain ((p # ps) ! j) ((p' # qs) ! j)
            else (p' # qs) ! j = (p # ps) ! j)"
    proof (intro allI impI)
      fix j assume "j < length (p # ps)"
      then show "if 7 < getTotalResources ((p # ps) ! j)
            then getTotalResources ((p' # qs) ! j)
                   = getTotalResources ((p # ps) ! j) - getTotalResources ((p # ps) ! j) div 2
                 \<and> noGain ((p # ps) ! j) ((p' # qs) ! j)
            else (p' # qs) ! j = (p # ps) ! j"
        using True d(2,3) ih(3) by (cases j) simp_all
    qed
    ultimately show ?thesis using ih(2) by simp
  next
    case False
    have "discardAll (p # ps) = Some (p # qs, evs)"
      using False ih(1) by simp
    moreover have "\<forall>j < length (p # ps).
           (if 7 < getTotalResources ((p # ps) ! j)
            then getTotalResources ((p # qs) ! j)
                   = getTotalResources ((p # ps) ! j) - getTotalResources ((p # ps) ! j) div 2
                 \<and> noGain ((p # ps) ! j) ((p # qs) ! j)
            else (p # qs) ! j = (p # ps) ! j)"
    proof (intro allI impI)
      fix j assume "j < length (p # ps)"
      then show "if 7 < getTotalResources ((p # ps) ! j)
            then getTotalResources ((p # qs) ! j)
                   = getTotalResources ((p # ps) ! j) - getTotalResources ((p # ps) ! j) div 2
                 \<and> noGain ((p # ps) ! j) ((p # qs) ! j)
            else (p # qs) ! j = (p # ps) ! j"
        using False ih(3) by (cases j) simp_all
    qed
    ultimately show ?thesis using ih(2) by simp
  qed
qed

lemma boardOfPiece_cong:
  "detached g' = detached g \<Longrightarrow> board g' = board g \<Longrightarrow> boardOfPiece g' = boardOfPiece g"
  by (simp add: boardOfPiece_def fun_eq_iff split: option.splits)

lemma rollDice_returns:
  assumes "gamePhase g = Playing" "\<not> hasRolledDice g" "getCurrentPlayer g = Some i"
  shows "\<exists>g'. rollDice die1 die2 g = Some (Inr (Some (die1, die2, die1 + die2), g'))
     \<and> board g' = board g \<and> length (players g') = length (players g)
     \<and> (die1 + die2 \<noteq> 7 \<longrightarrow>
           players g' = map (\<lambda>p. fst (collectFromDiceRoll (boardOfPiece g) (Some (die1 + die2)) p))
                          (players g))
     \<and> (die1 + die2 = 7 \<longrightarrow>
          (\<forall>j < length (players g).
             (if 7 < getTotalResources (players g ! j)
              then getTotalResources (players g' ! j)
                     = getTotalResources (players g ! j) - getTotalResources (players g ! j) div 2
                   \<and> noGain (players g ! j) (players g' ! j)
              else players g' ! j = players g ! j)))"
proof (cases "die1 + die2 = 7")
  case True
  from discardAll_returns[of "players g"] obtain ps' evs where
    d: "discardAll (players g) = Some (ps', evs)" "length ps' = length (players g)"
     "\<forall>j < length (players g).
           (if 7 < getTotalResources (players g ! j)
            then getTotalResources (ps' ! j)
                   = getTotalResources (players g ! j) - getTotalResources (players g ! j) div 2
                 \<and> noGain (players g ! j) (ps' ! j)
            else ps' ! j = players g ! j)" by blast
  from assms True d(1) have "\<exists>g'. rollDice die1 die2 g = Some (Inr (Some (die1, die2, die1 + die2), g'))
      \<and> board g' = board g \<and> players g' = ps'"
    by (auto simp: rollDice_def Let_def getCurrentPlayer_def logEvent_def handleRobberRoll_def
             split: if_splits)
  with d(2,3) True show ?thesis by auto
next
  case False
  have bp: "\<And>x y z w v. boardOfPiece (g\<lparr>diceResult := x, hasRolledDice := y, canBuild := z,
      canTrade := w, eventLog := v\<rparr>) = boardOfPiece g"
    by (rule boardOfPiece_cong) simp_all
  from assms False have "\<exists>g'. rollDice die1 die2 g = Some (Inr (Some (die1, die2, die1 + die2), g'))
      \<and> board g' = board g
      \<and> players g' = map (\<lambda>p. fst (collectFromDiceRoll (boardOfPiece g) (Some (die1 + die2)) p)) (players g)"
    by (auto simp: rollDice_def Let_def getCurrentPlayer_def logEvent_def handleResourceProduction_def
          bp split: if_splits)
  with False show ?thesis by auto
qed

section \<open>Properties of the generated board\<close>

subsection \<open>Association lists\<close>

lemma map_entry_proj:
  "(\<And>v. pr (f v) = pr v) \<Longrightarrow>
   map (\<lambda>kv. (fst kv, pr (snd kv))) (AList.map_entry k f al) = map (\<lambda>kv. (fst kv, pr (snd kv))) al"
  by (induction al) auto

lemma fold_preserves:
  "(\<And>x s. V (f x s) = V s) \<Longrightarrow> V (fold f xs s) = V s"
  by (induction xs arbitrary: s) simp_all

lemma keysOf_terrainList: "keysOf b = map fst (terrainList b)"
  by (simp add: keysOf_def terrainList_def comp_def)

subsection \<open>Building the graph does not touch terrain, tokens or the robber\<close>

lemma hexCore_upd [simp]:
  "hexCore (h\<lparr>hex_vertices := vs\<rparr>) = hexCore h"
  "hexCore (h\<lparr>hex_edges := es\<rparr>) = hexCore h"
  by (simp_all add: hexCore_def)

lemma coreList_createVertexFor [simp]: "coreList (createVertexFor hk d b) = coreList b"
  by (simp add: createVertexFor_def coreList_def Let_def map_entry_proj split: option.splits)

lemma coreList_createEdgeFor [simp]: "coreList (createEdgeFor hk d b) = coreList b"
  by (simp add: createEdgeFor_def coreList_def Let_def map_entry_proj)

lemma coreList_linkVertexEdge [simp]: "coreList (linkVertexEdge vk ek b) = coreList b"
  by (simp add: linkVertexEdge_def coreList_def Let_def split: option.splits)

lemma coreList_createVerticesForHex [simp]: "coreList (createVerticesForHex hk b) = coreList b"
  unfolding createVerticesForHex_def by (rule fold_preserves) simp

lemma coreList_createEdgesForHex [simp]: "coreList (createEdgesForHex hk b) = coreList b"
  unfolding createEdgesForHex_def by (rule fold_preserves) simp

lemma coreList_linkVertexAt [simp]: "coreList (linkVertexAt hk iv b) = coreList b"
  unfolding linkVertexAt_def by (rule fold_preserves) (simp split: option.splits)


lemma map_of_map_snd:
  "map_of (map (\<lambda>kv. (fst kv, f (snd kv))) al) k = map_option f (map_of al k)"
  by (induction al) auto

lemma map_of_coreList: "map_of (coreList b) k = map_option hexCore (map_of (hexes b) k)"
  by (simp add: coreList_def map_of_map_snd)

lemma keysOf_coreList: "keysOf b = map fst (coreList b)"
  by (simp add: keysOf_def coreList_def comp_def)

lemma terrainList_coreList: "terrainList b = map (\<lambda>kc. (fst kc, fst (snd kc))) (coreList b)"
  by (simp add: terrainList_def coreList_def comp_def hexCore_def)

lemma tokenAt_coreList:
  "tokenAt b k = (case map_of (coreList b) k of Some c \<Rightarrow> fst (snd c) | None \<Rightarrow> None)"
  by (simp add: tokenAt_def map_of_coreList hexCore_def split: option.splits)

lemma robberAt_coreList:
  "robberAt b k = (case map_of (coreList b) k of Some c \<Rightarrow> fst (snd (snd c)) | None \<Rightarrow> False)"
  by (simp add: robberAt_def map_of_coreList hexCore_def split: option.splits)

lemma neighborsOf_coreList:
  "neighborsOf b k = (case map_of (coreList b) k of Some c \<Rightarrow> snd (snd (snd c)) | None \<Rightarrow> [])"
  by (simp add: neighborsOf_def map_of_coreList hexCore_def split: option.splits)

lemma same_core:
  assumes "coreList b' = coreList b"
  shows "keysOf b' = keysOf b" "terrainList b' = terrainList b" "tokenAt b' = tokenAt b"
    "robberAt b' = robberAt b" "neighborsOf b' = neighborsOf b"
  using assms
  by (simp_all add: keysOf_coreList terrainList_coreList tokenAt_coreList robberAt_coreList
        neighborsOf_coreList fun_eq_iff)

lemma in_keysOf_iff: "k \<in> set (keysOf b) \<longleftrightarrow> map_of (hexes b) k \<noteq> None"
  by (simp add: keysOf_def map_of_eq_None_iff)

subsection \<open>Neighbours\<close>

lemma linkNeighbor_views:
  "keysOf (linkNeighbor hk off b) = keysOf b"
  "terrainList (linkNeighbor hk off b) = terrainList b"
  "tokenAt (linkNeighbor hk off b) = tokenAt b"
  "robberAt (linkNeighbor hk off b) = robberAt b"
  by (auto simp: linkNeighbor_def keysOf_def terrainList_def tokenAt_def robberAt_def fun_eq_iff
        map_entry_proj AList.map_of_map_entry map_entry_proj[where pr = "\<lambda>x. ()", simplified]
        split: option.splits)


lemma neighborsOf_linkNeighbor:
  "neighborsOf (linkNeighbor hk off b) k =
     (if k = hk \<and> hk \<in> set (keysOf b) \<and> (fst hk + fst off, snd hk + snd off) \<in> set (keysOf b)
      then neighborsOf b hk @ [(fst hk + fst off, snd hk + snd off)]
      else neighborsOf b k)"
  by (auto simp: linkNeighbor_def neighborsOf_def getHex_def in_keysOf_iff AList.map_of_map_entry
        split: option.splits)

lemma fold_linkNeighbor:
  "keysOf (fold (linkNeighbor hk) offs b) = keysOf b
   \<and> terrainList (fold (linkNeighbor hk) offs b) = terrainList b
   \<and> tokenAt (fold (linkNeighbor hk) offs b) = tokenAt b
   \<and> robberAt (fold (linkNeighbor hk) offs b) = robberAt b
   \<and> neighborsOf (fold (linkNeighbor hk) offs b) k =
       (if k = hk \<and> hk \<in> set (keysOf b)
        then neighborsOf b hk
             @ filter (\<lambda>n. n \<in> set (keysOf b)) (map (\<lambda>off. (fst hk + fst off, snd hk + snd off)) offs)
        else neighborsOf b k)"
proof (induction offs arbitrary: b)
  case Nil
  then show ?case by simp
next
  case (Cons off offs)
  show ?case
    by (simp add: Cons.IH linkNeighbor_views neighborsOf_linkNeighbor)
qed

lemma linkHexRelationships_views:
  "keysOf (linkHexRelationships hk b) = keysOf b"
  "terrainList (linkHexRelationships hk b) = terrainList b"
  "tokenAt (linkHexRelationships hk b) = tokenAt b"
  "robberAt (linkHexRelationships hk b) = robberAt b"
  "neighborsOf (linkHexRelationships hk b) k =
     (if k = hk \<and> hk \<in> set (keysOf b) then neighborsOf b hk @ nbrs (keysOf b) hk
      else neighborsOf b k)"
proof -
  let ?b1 = "fold (linkNeighbor hk) neighborOffsets b"
  have c: "coreList (linkHexRelationships hk b) = coreList ?b1"
  proof (cases "map_of (hexes ?b1) hk")
    case None
    then show ?thesis by (simp add: linkHexRelationships_def)
  next
    case (Some h)
    have "coreList (fold (linkVertexAt hk) (enumerate 0 (hex_vertices h)) ?b1) = coreList ?b1"
      by (rule fold_preserves) simp
    with Some show ?thesis by (simp add: linkHexRelationships_def)
  qed
  note v = same_core[OF c] fold_linkNeighbor[of hk neighborOffsets b]
  show "keysOf (linkHexRelationships hk b) = keysOf b" using v by simp
  show "terrainList (linkHexRelationships hk b) = terrainList b" using v by simp
  show "tokenAt (linkHexRelationships hk b) = tokenAt b" using v by simp
  show "robberAt (linkHexRelationships hk b) = robberAt b" using v by simp
  show "neighborsOf (linkHexRelationships hk b) k =
     (if k = hk \<and> hk \<in> set (keysOf b) then neighborsOf b hk @ nbrs (keysOf b) hk
      else neighborsOf b k)"
    using same_core(5)[OF c] fold_linkNeighbor[of hk neighborOffsets b k]
    by (simp add: nbrs_def)
qed

lemma fold_linkHexRelationships:
  "distinct ks \<Longrightarrow>
   keysOf (fold linkHexRelationships ks b) = keysOf b
   \<and> terrainList (fold linkHexRelationships ks b) = terrainList b
   \<and> tokenAt (fold linkHexRelationships ks b) = tokenAt b
   \<and> robberAt (fold linkHexRelationships ks b) = robberAt b
   \<and> neighborsOf (fold linkHexRelationships ks b) k =
       (if k \<in> set ks \<and> k \<in> set (keysOf b) then neighborsOf b k @ nbrs (keysOf b) k
        else neighborsOf b k)"
proof (induction ks arbitrary: b)
  case Nil
  then show ?case by simp
next
  case (Cons hk ks)
  from Cons.prems have d: "distinct ks" "hk \<notin> set ks" by simp_all
  show ?case
    using d(2) by (auto simp: Cons.IH[OF d(1)] linkHexRelationships_views)
qed

lemma firstPass_core:
  "coreList (fold (\<lambda>k b. createEdgesForHex k (createVerticesForHex k b)) ks b) = coreList b"
  by (rule fold_preserves) simp

lemma buildRelationships_views:
  assumes "distinct (keysOf b)"
  shows "keysOf (buildRelationships b) = keysOf b"
    "terrainList (buildRelationships b) = terrainList b"
    "tokenAt (buildRelationships b) = tokenAt b"
    "robberAt (buildRelationships b) = robberAt b"
    "neighborsOf (buildRelationships b) k =
       (if k \<in> set (keysOf b) then neighborsOf b k @ nbrs (keysOf b) k else neighborsOf b k)"
proof -
  define b1 where "b1 = fold (\<lambda>k b. createEdgesForHex k (createVerticesForHex k b)) (keysOf b) b"
  have "coreList b1 = coreList b" unfolding b1_def by (rule firstPass_core)
  note c = same_core[OF this]
  note f = fold_linkHexRelationships[OF assms, of b1]
  have br: "buildRelationships b = fold linkHexRelationships (keysOf b) b1"
    by (simp add: buildRelationships_def Let_def b1_def keysOf_def)
  show "keysOf (buildRelationships b) = keysOf b" using f c by (simp add: br)
  show "terrainList (buildRelationships b) = terrainList b" using f c by (simp add: br)
  show "tokenAt (buildRelationships b) = tokenAt b" using f c by (simp add: br)
  show "robberAt (buildRelationships b) = robberAt b" using f c by (simp add: br)
  show "neighborsOf (buildRelationships b) k =
       (if k \<in> set (keysOf b) then neighborsOf b k @ nbrs (keysOf b) k else neighborsOf b k)"
    using fold_linkHexRelationships[OF assms, of b1 k] c by (simp add: br)
qed


subsection \<open>Placing a token\<close>

lemma sameFrame_refl [simp]: "sameFrame b b"
  by (simp add: sameFrame_def)

lemma sameFrame_trans: "sameFrame a b \<Longrightarrow> sameFrame b c \<Longrightarrow> sameFrame a c"
  by (simp add: sameFrame_def)

lemma hexCore_numberToken:
  "fst (hexCore (h\<lparr>numberToken := x\<rparr>)) = fst (hexCore h)"
  "fst (snd (snd (hexCore (h\<lparr>numberToken := x\<rparr>)))) = fst (snd (snd (hexCore h)))"
  "snd (snd (snd (hexCore (h\<lparr>numberToken := x\<rparr>)))) = snd (snd (snd (hexCore h)))"
  by (simp_all add: hexCore_def)

lemma placeOnHex_free:
  assumes "ti < length (numberTokens b)" "token_hex (numberTokens b ! ti) = None"
  shows "sameFrame b (placeOnHex ti hk b)"
    "numberTokens (placeOnHex ti hk b)
       = (numberTokens b)[ti := (numberTokens b ! ti)\<lparr>token_hex := Some hk\<rparr>]"
    "tokenAt (placeOnHex ti hk b) k =
       (if k = hk \<and> hk \<in> set (keysOf b) then Some (ti, token_value (numberTokens b ! ti))
        else tokenAt b k)"
proof -
  let ?f = "\<lambda>h. h\<lparr>numberToken := Some (ti, token_value (numberTokens b ! ti))\<rparr>"
  have eq: "placeOnHex ti hk b =
      b\<lparr> numberTokens := (numberTokens b)[ti := (numberTokens b ! ti)\<lparr>token_hex := Some hk\<rparr>],
         hexes := AList.map_entry hk ?f (hexes b) \<rparr>"
    using assms by (simp add: placeOnHex_def Let_def)
  show "numberTokens (placeOnHex ti hk b)
       = (numberTokens b)[ti := (numberTokens b ! ti)\<lparr>token_hex := Some hk\<rparr>]"
    by (simp add: eq)
  show "tokenAt (placeOnHex ti hk b) k =
       (if k = hk \<and> hk \<in> set (keysOf b) then Some (ti, token_value (numberTokens b ! ti))
        else tokenAt b k)"
    by (auto simp: eq tokenAt_def AList.map_of_map_entry in_keysOf_iff split: option.splits)
  have "map token_value ((numberTokens b)[ti := (numberTokens b ! ti)\<lparr>token_hex := Some hk\<rparr>])
      = map token_value (numberTokens b)"
    by (simp add: map_update list_update_same_conv assms(1))
  moreover have "terrainList (placeOnHex ti hk b) = terrainList b"
    by (simp add: eq terrainList_def map_entry_proj)
  moreover have "keysOf (placeOnHex ti hk b) = keysOf b"
    by (simp add: eq keysOf_def map_entry_proj[where pr = "\<lambda>x. ()", simplified])
  moreover have "robberAt (placeOnHex ti hk b) = robberAt b"
    by (auto simp: eq robberAt_def fun_eq_iff AList.map_of_map_entry split: option.splits)
  moreover have "neighborsOf (placeOnHex ti hk b) = neighborsOf b"
    by (auto simp: eq neighborsOf_def fun_eq_iff AList.map_of_map_entry split: option.splits)
  ultimately show "sameFrame b (placeOnHex ti hk b)"
    by (simp add: sameFrame_def eq)
qed

lemma tokensBound_place:
  assumes tb: "tokensBound b S" and ti: "ti < length (numberTokens b)" "ti \<notin> S"
    and hk: "hk \<in> set (keysOf b)" "tokenAt b hk = None"
  shows "tokensBound (placeOnHex ti hk b) (insert ti S)"
proof -
  from tb ti have free: "token_hex (numberTokens b ! ti) = None"
    by (simp add: tokensBound_def)
  note p = placeOnHex_free[OF ti(1) free, of hk]
  show ?thesis
    unfolding tokensBound_def
  proof (intro allI impI conjI)
    fix i assume i: "i < length (numberTokens (placeOnHex ti hk b))" and "i \<in> insert ti S"
    from i have il: "i < length (numberTokens b)" by (simp add: p(2))
    show "\<exists>k. token_hex (numberTokens (placeOnHex ti hk b) ! i) = Some k
            \<and> tokenAt (placeOnHex ti hk b) k
                = Some (i, token_value (numberTokens (placeOnHex ti hk b) ! i))"
    proof (cases "i = ti")
      case True
      with ti(1) hk(1) show ?thesis by (simp add: p(2,3))
    next
      case False
      with \<open>i \<in> insert ti S\<close> have "i \<in> S" by simp
      with tb il obtain k where k: "token_hex (numberTokens b ! i) = Some k"
        "tokenAt b k = Some (i, token_value (numberTokens b ! i))"
        by (auto simp: tokensBound_def)
      from k(2) hk(2) have "k \<noteq> hk" by auto
      with k False show ?thesis by (simp add: p(2,3))
    qed
  next
    fix i assume i: "i < length (numberTokens (placeOnHex ti hk b))" and n: "i \<notin> insert ti S"
    from i have il: "i < length (numberTokens b)" by (simp add: p(2))
    from n have "i \<noteq> ti" "i \<notin> S" by simp_all
    with tb il show "token_hex (numberTokens (placeOnHex ti hk b) ! i) = None"
      by (simp add: p(2) tokensBound_def)
  qed
qed

subsection \<open>Placing the high-probability tokens\<close>

lemma butlast_remove1_last: "distinct xs \<Longrightarrow> xs \<noteq> [] \<Longrightarrow> butlast xs = remove1 (last xs) xs"
  by (induction xs) auto

lemma filter_except_absent: "x \<notin> set L \<Longrightarrow> filter (\<lambda>k. k \<noteq> x \<and> P k) L = filter P L"
  by (induction L) auto

lemma length_filter_except:
  "distinct L \<Longrightarrow> length (filter P L) \<le> length (filter (\<lambda>k. k \<noteq> x \<and> P k) L) + 1"
  by (induction L) (auto simp: filter_except_absent)

lemma hasRedToken_tokenAt:
  "hasRedToken b k = (case tokenAt b k of Some tk \<Rightarrow> isHighProbability (snd tk) | None \<Rightarrow> False)"
  by (simp add: hasRedToken_def tokenAt_def split: option.splits)

lemma placeStep:
  assumes inv: "placeInv b S (tk # tks) avail" and sel: "sel \<in> set avail"
  shows "placeInv (placeOnHex tk sel b) (insert tk S) tks (remove1 sel avail)"
    "sameFrame b (placeOnHex tk sel b)"
    "tokenAt (placeOnHex tk sel b) = (tokenAt b)(sel := Some (tk, token_value (numberTokens b ! tk)))"
    "distinct L \<Longrightarrow> length (unmarked b L) \<le> length (unmarked (placeOnHex tk sel b) L) + 1"
proof -
  from inv have tb: "tokensBound b S" and tk: "tk < length (numberTokens b)" "tk \<notin> S"
    and d: "distinct tks" "tk \<notin> set tks" "set tks \<inter> S = {}"
    and tl: "\<forall>t \<in> set tks. t < length (numberTokens b)"
    and av: "distinct avail" "\<forall>k \<in> set avail. k \<in> set (keysOf b) \<and> tokenAt b k = None"
    and len: "length tks < length avail"
    by (auto simp: placeInv_def)
  from av sel have s: "sel \<in> set (keysOf b)" "tokenAt b sel = None" by auto
  from tb tk have free: "token_hex (numberTokens b ! tk) = None" by (simp add: tokensBound_def)
  note p = placeOnHex_free[OF tk(1) free, of sel]
  show f: "sameFrame b (placeOnHex tk sel b)" by (rule p(1))
  show t: "tokenAt (placeOnHex tk sel b) = (tokenAt b)(sel := Some (tk, token_value (numberTokens b ! tk)))"
    using s(1) by (auto simp: p(3) fun_eq_iff)
  have "tokensBound (placeOnHex tk sel b) (insert tk S)"
    by (rule tokensBound_place[OF tb tk s])
  moreover have "\<forall>t \<in> set tks. t < length (numberTokens (placeOnHex tk sel b))"
    using tl by (simp add: p(2))
  moreover have "\<forall>k \<in> set (remove1 sel avail).
      k \<in> set (keysOf (placeOnHex tk sel b)) \<and> tokenAt (placeOnHex tk sel b) k = None"
    using av f by (auto simp: t sameFrame_def)
  moreover have "length tks \<le> length (remove1 sel avail)"
    using len sel by (simp add: length_remove1)
  ultimately show "placeInv (placeOnHex tk sel b) (insert tk S) tks (remove1 sel avail)"
    using d av(1) by (auto simp: placeInv_def)
  show "length (unmarked b L) \<le> length (unmarked (placeOnHex tk sel b) L) + 1" if "distinct L"
  proof -
    have "unmarked (placeOnHex tk sel b) L = filter (\<lambda>k. k \<noteq> sel \<and> tokenAt b k = None) L"
      by (auto simp: unmarked_def t intro: filter_cong)
    with length_filter_except[OF that, of "\<lambda>k. tokenAt b k = None" sel]
    show ?thesis by (simp add: unmarked_def)
  qed
qed

lemma redApart_step:
  assumes ra: "redApart b" and sym: "symNeighbors b"
    and sf: "neighborsOf b' = neighborsOf b"
    and t: "tokenAt b' = (tokenAt b)(sel := Some x)"
    and un: "tokenAt b sel = None"
    and valid: "\<not> list_ex (hasRedToken b) (neighborsOf b sel)"
  shows "redApart b'"
  unfolding redApart_def
proof (intro allI impI)
  fix k k' assume r: "hasRedToken b' k \<and> hasRedToken b' k'"
  have old: "\<And>j. j \<noteq> sel \<Longrightarrow> hasRedToken b' j = hasRedToken b j"
    by (simp add: hasRedToken_tokenAt t)
  from valid have v: "\<And>n. n \<in> set (neighborsOf b sel) \<Longrightarrow> \<not> hasRedToken b n"
    by (simp add: list_ex_iff)
  from sym have irr: "sel \<notin> set (neighborsOf b sel)" unfolding symNeighbors_def by blast
  show "k' \<notin> set (neighborsOf b' k)"
  proof (cases "k = sel")
    case True
    show ?thesis
    proof (cases "k' = sel")
      case True
      with \<open>k = sel\<close> irr sf show ?thesis by simp
    next
      case False
      with r old have rk': "hasRedToken b k'" by simp
      show ?thesis
      proof
        assume "k' \<in> set (neighborsOf b' k)"
        with True sf have "k' \<in> set (neighborsOf b sel)" by simp
        with v rk' show False by blast
      qed
    qed
  next
    case False
    with r old have rk: "hasRedToken b k" by simp
    show ?thesis
    proof (cases "k' = sel")
      case True
      show ?thesis
      proof
        assume "k' \<in> set (neighborsOf b' k)"
        with True sf have "sel \<in> set (neighborsOf b k)" by simp
        with sym have "k \<in> set (neighborsOf b sel)" unfolding symNeighbors_def by blast
        with v rk show False by blast
      qed
    next
      case F2: False
      with r old have "hasRedToken b k'" by simp
      with rk ra sf show ?thesis unfolding redApart_def by metis
    qed
  qed
qed


lemma rand_less: "rand n rs = (i, rs') \<Longrightarrow> 0 < n \<Longrightarrow> i < n"
  by (auto simp: rand_def split: list.splits)

lemma symNeighbors_frame: "sameFrame b b' \<Longrightarrow> symNeighbors b \<Longrightarrow> symNeighbors b'"
  by (simp add: sameFrame_def symNeighbors_def)

lemma placeRed_correct:
  assumes "placeInv b S tks avail"
    and "placeRedTokensWithConstraint tks avail rs b w = (b', rs', w')"
    and "distinct L"
  shows "tokensBound b' (S \<union> set tks) \<and> sameFrame b b' \<and> w \<le> w'
     \<and> length (unmarked b L) \<le> length (unmarked b' L) + length tks
     \<and> (\<forall>k. tokenAt b' k \<noteq> None \<longrightarrow> tokenAt b k \<noteq> None \<or> k \<in> set avail)
     \<and> (w' = w \<longrightarrow> symNeighbors b \<longrightarrow> redApart b \<longrightarrow> redApart b')"
  using assms(1,2)
proof (induction tks arbitrary: b S avail rs w)
  case Nil
  then show ?case by (simp add: placeInv_def)
next
  case (Cons tk tks)
  note inv = Cons.prems(1)
  let ?valid = "validHexes b avail"
  from inv have av: "distinct avail" "avail \<noteq> []"
    "\<forall>k \<in> set avail. k \<in> set (keysOf b) \<and> tokenAt b k = None"
    by (auto simp: placeInv_def)
  have step: "\<exists>sel w1 rs1. sel \<in> set avail \<and> w \<le> w1
      \<and> (w1 = w \<longrightarrow> \<not> list_ex (hasRedToken b) (neighborsOf b sel))
      \<and> placeRedTokensWithConstraint tks (remove1 sel avail) rs1 (placeOnHex tk sel b) w1 = (b', rs', w')"
  proof (cases "?valid = []")
    case False
    obtain i rs1 where r: "rand (length ?valid) rs = (i, rs1)"
      by (cases "rand (length ?valid) rs") auto
    with False have "i < length ?valid" by (auto intro: rand_less)
    then have m: "?valid ! i \<in> set ?valid" by simp
    then have "?valid ! i \<in> set avail" "\<not> list_ex (hasRedToken b) (neighborsOf b (?valid ! i))"
      by (simp_all add: validHexes_def)
    moreover from Cons.prems(2) False r
    have "placeRedTokensWithConstraint tks (remove1 (?valid ! i) avail) rs1
            (placeOnHex tk (?valid ! i) b) w = (b', rs', w')"
      by (simp add: Let_def)
    ultimately show ?thesis by blast
  next
    case True
    from Cons.prems(2) True av(2)
    have "placeRedTokensWithConstraint tks (butlast avail) rs (placeOnHex tk (last avail) b) (w + 1)
            = (b', rs', w')"
      by (simp add: Let_def)
    then have "placeRedTokensWithConstraint tks (remove1 (last avail) avail) rs
            (placeOnHex tk (last avail) b) (w + 1) = (b', rs', w')"
      using butlast_remove1_last[OF av(1,2)] by simp
    moreover have "last avail \<in> set avail" using av(2) by simp
    ultimately show ?thesis by (intro exI[of _ "last avail"] exI[of _ "w + 1"] exI[of _ rs]) simp
  qed
  then obtain sel w1 rs1 where sel: "sel \<in> set avail" and w1: "w \<le> w1"
    and vd: "w1 = w \<longrightarrow> \<not> list_ex (hasRedToken b) (neighborsOf b sel)"
    and rec: "placeRedTokensWithConstraint tks (remove1 sel avail) rs1 (placeOnHex tk sel b) w1
                = (b', rs', w')"
    by blast
  let ?b1 = "placeOnHex tk sel b"
  note st = placeStep[OF inv sel]
  note ih = Cons.IH[OF st(1) rec]
  from ih have tb: "tokensBound b' (insert tk S \<union> set tks)" and sf: "sameFrame ?b1 b'"
    and w: "w1 \<le> w'" and un: "length (unmarked ?b1 L) \<le> length (unmarked b' L) + length tks"
    and mk: "\<forall>k. tokenAt b' k \<noteq> None \<longrightarrow> tokenAt ?b1 k \<noteq> None \<or> k \<in> set (remove1 sel avail)"
    and ra: "w' = w1 \<longrightarrow> symNeighbors ?b1 \<longrightarrow> redApart ?b1 \<longrightarrow> redApart b'"
    by blast+
  have 1: "tokensBound b' (S \<union> set (tk # tks))" using tb by simp
  have 2: "sameFrame b b'" by (rule sameFrame_trans[OF st(2) sf])
  have 3: "w \<le> w'" using w1 w by simp
  have 4: "length (unmarked b L) \<le> length (unmarked b' L) + length (tk # tks)"
    using st(4)[OF assms(3)] un by simp
  have 5: "\<forall>k. tokenAt b' k \<noteq> None \<longrightarrow> tokenAt b k \<noteq> None \<or> k \<in> set avail"
  proof (intro allI impI)
    fix k assume "tokenAt b' k \<noteq> None"
    with mk have "tokenAt ?b1 k \<noteq> None \<or> k \<in> set (remove1 sel avail)" by blast
    then show "tokenAt b k \<noteq> None \<or> k \<in> set avail"
      using sel notin_set_remove1[of k avail sel] by (auto simp: st(3) split: if_splits)
  qed
  have 6: "w' = w \<longrightarrow> symNeighbors b \<longrightarrow> redApart b \<longrightarrow> redApart b'"
  proof (intro impI)
    assume e: "w' = w" and sy: "symNeighbors b" and r: "redApart b"
    from e w1 w have e1: "w1 = w" "w' = w1" by simp_all
    from inv sel have "tokenAt b sel = None" by (auto simp: placeInv_def)
    with r sy st(2,3) vd e1 have "redApart ?b1"
      by (intro redApart_step[of b ?b1 sel]) (auto simp: sameFrame_def)
    with ra e1 symNeighbors_frame[OF st(2) sy] show "redApart b'" by blast
  qed
  from 1 2 3 4 5 6 show ?case by blast
qed


subsection \<open>The fallback is never taken on the standard layout\<close>

lemma rimCover_layout: "list_all (\<lambda>p. length (rimCover p) \<le> 3) hexLayout"
  by code_simp

lemma outerRing_facts: "distinct outerRing" "length outerRing = 12"
  "set outerRing \<subseteq> set hexLayout"
  by (simp_all add: outerRing_def hexLayout_def)

lemma nbrs_subset: "n \<in> set (nbrs ks k) \<Longrightarrow> n \<in> set ks"
  by (simp add: nbrs_def)

lemma card_rimCover: "card (set (rimCover p)) \<le> 3"
proof (cases "p \<in> set hexLayout")
  case True
  with rimCover_layout have "length (rimCover p) \<le> 3" by (simp add: list_all_iff)
  with card_length[of "rimCover p"] show ?thesis by simp
next
  case False
  have "rimCover p = []"
    unfolding rimCover_def filter_empty_conv
    using False outerRing_facts(3) nbrs_subset[of p hexLayout] by blast
  then show ?thesis by simp
qed

lemma rim_candidate:
  assumes "finite P" "card P \<le> 3"
  shows "\<exists>x \<in> set outerRing. x \<noteq> d \<and> x \<notin> P \<and> (\<forall>n \<in> set (nbrs hexLayout x). n \<notin> P)"
proof (rule ccontr)
  assume "\<not> ?thesis"
  then have cov: "\<And>x. x \<in> set outerRing \<Longrightarrow>
      x = d \<or> x \<in> P \<or> (\<exists>n \<in> set (nbrs hexLayout x). n \<in> P)"
    by blast
  have sub: "set outerRing \<subseteq> insert d (\<Union>p \<in> P. set (rimCover p))"
  proof
    fix x assume x: "x \<in> set outerRing"
    from cov[OF x] show "x \<in> insert d (\<Union>p \<in> P. set (rimCover p))"
      using x by (auto simp: rimCover_def)
  qed
  have fin: "finite (\<Union>p \<in> P. set (rimCover p))" using assms(1) by simp
  have "card (\<Union>p \<in> P. set (rimCover p)) \<le> (\<Sum>p \<in> P. card (set (rimCover p)))"
    by (rule card_UN_le[OF assms(1)])
  also have "\<dots> \<le> (\<Sum>p \<in> P. 3)" by (rule sum_mono) (rule card_rimCover)
  also have "\<dots> = 3 * card P" by simp
  finally have u: "card (\<Union>p \<in> P. set (rimCover p)) \<le> 9" using assms(2) by simp
  have "card (set outerRing) \<le> card (insert d (\<Union>p \<in> P. set (rimCover p)))"
    by (rule card_mono[OF _ sub]) (simp add: fin)
  also have "\<dots> \<le> Suc (card (\<Union>p \<in> P. set (rimCover p)))"
    using fin by (simp add: card_insert_if)
  finally have "card (set outerRing) \<le> 10" using u by simp
  moreover have "card (set outerRing) = 12"
    using distinct_card[OF outerRing_facts(1)] outerRing_facts(2) by simp
  ultimately show False by simp
qed

lemma placeRed_no_fallback:
  assumes "placeInv b S tks avail"
    and "placeRedTokensWithConstraint tks avail rs b w = (b', rs', w')"
    and "neighborsOf b = (\<lambda>k. if k \<in> set hexLayout then nbrs hexLayout k else [])"
    and "finite P" "card P + length tks \<le> 4"
    and "\<forall>k. tokenAt b k \<noteq> None \<longrightarrow> k \<in> P"
    and "set hexLayout - insert d P \<subseteq> set avail"
  shows "w' = w"
  using assms
proof (induction tks arbitrary: b S avail rs w P)
  case Nil
  then show ?case by simp
next
  case (Cons tk tks)
  note inv = Cons.prems(1) and nb = Cons.prems(3) and fin = Cons.prems(4)
    and mk = Cons.prems(6) and av = Cons.prems(7)
  let ?valid = "validHexes b avail"
  from Cons.prems(5) have c3: "card P \<le> 3" by simp
  from rim_candidate[OF fin c3, of d] obtain x where x: "x \<in> set outerRing" "x \<noteq> d" "x \<notin> P"
    "\<forall>n \<in> set (nbrs hexLayout x). n \<notin> P"
    by blast
  from x(1) outerRing_facts(3) have xl: "x \<in> set hexLayout" by blast
  with x(2,3) av have xa: "x \<in> set avail" by blast
  have "\<not> list_ex (hasRedToken b) (neighborsOf b x)"
    using x(4) mk xl by (auto simp: list_ex_iff nb hasRedToken_tokenAt split: option.splits)
  with xa have "x \<in> set ?valid" by (simp add: validHexes_def)
  then have ne: "?valid \<noteq> []" by auto
  obtain i rs1 where r: "rand (length ?valid) rs = (i, rs1)"
    by (cases "rand (length ?valid) rs") auto
  with ne have "i < length ?valid" by (auto intro: rand_less)
  then have "?valid ! i \<in> set ?valid" by simp
  then have sel: "?valid ! i \<in> set avail" by (simp add: validHexes_def)
  let ?sel = "?valid ! i"
  from Cons.prems(2) ne r
  have rec: "placeRedTokensWithConstraint tks (remove1 ?sel avail) rs1 (placeOnHex tk ?sel b) w
               = (b', rs', w')"
    by (simp add: Let_def)
  note st = placeStep[OF inv sel]
  from inv have da: "distinct avail" by (simp add: placeInv_def)
  show ?case
  proof (rule Cons.IH[OF st(1) rec, of "insert ?sel P"])
    show "neighborsOf (placeOnHex tk ?sel b)
            = (\<lambda>k. if k \<in> set hexLayout then nbrs hexLayout k else [])"
      using st(2) nb by (simp add: sameFrame_def)
    show "finite (insert ?sel P)" using fin by simp
    show "card (insert ?sel P) + length tks \<le> 4"
      using Cons.prems(5) fin by (simp add: card_insert_if)
    show "\<forall>k. tokenAt (placeOnHex tk ?sel b) k \<noteq> None \<longrightarrow> k \<in> insert ?sel P"
      using mk by (simp add: st(3))
    show "set hexLayout - insert d (insert ?sel P) \<subseteq> set (remove1 ?sel avail)"
      using av da by auto
  qed
qed


subsection \<open>Shuffling permutes\<close>

lemma rand_le: "rand (Suc n) rs = (j, rs') \<Longrightarrow> j \<le> n"
  using rand_less[of "Suc n" rs j rs'] by simp

lemma mset_shuffleLoop:
  "i < length xs \<Longrightarrow> shuffleLoop i xs rs = (ys, rs') \<Longrightarrow> mset ys = mset xs"
proof (induction i arbitrary: xs rs)
  case 0
  then show ?case by simp
next
  case (Suc i)
  obtain j rs1 where r: "rand (Suc i + 1) rs = (j, rs1)"
    by (cases "rand (Suc i + 1) rs") auto
  then have j: "j \<le> Suc i" using rand_le[of "Suc i" rs j rs1] by simp
  let ?xs = "xs[Suc i := xs ! j, j := xs ! Suc i]"
  from Suc.prems r have "shuffleLoop i ?xs rs1 = (ys, rs')" by simp
  moreover have "i < length ?xs" using Suc.prems(1) by simp
  ultimately have "mset ys = mset ?xs" by (rule Suc.IH[rotated])
  also have "\<dots> = mset xs"
    using Suc.prems(1) j by (intro mset_swap) simp_all
  finally show ?case .
qed

lemma mset_shuffleArray: "shuffleArray xs rs = (ys, rs') \<Longrightarrow> mset ys = mset xs"
proof (cases xs)
  case Nil
  then show "shuffleArray xs rs = (ys, rs') \<Longrightarrow> mset ys = mset xs"
    by (simp add: shuffleArray_def)
next
  case (Cons x xs')
  then have "length xs - 1 < length xs" by simp
  then show "shuffleArray xs rs = (ys, rs') \<Longrightarrow> mset ys = mset xs"
    unfolding shuffleArray_def by (rule mset_shuffleLoop)
qed

lemma shuffleArray_props:
  assumes "shuffleArray xs rs = (ys, rs')"
  shows "set ys = set xs" "length ys = length xs" "distinct ys = distinct xs"
  using mset_shuffleArray[OF assms] mset_eq_setD mset_eq_length mset_eq_imp_distinct_iff
  by blast+

subsection \<open>Placing the remaining tokens\<close>

lemma hasRedToken_place_low:
  assumes "tokenAt b' = (tokenAt b)(k := Some (tk, v))" "tokenAt b k = None"
    "\<not> isHighProbability v"
  shows "hasRedToken b' = hasRedToken b"
  using assms by (auto simp: fun_eq_iff hasRedToken_tokenAt)

lemma token_value_frame:
  "sameFrame b b' \<Longrightarrow> t < length (numberTokens b) \<Longrightarrow>
   token_value (numberTokens b' ! t) = token_value (numberTokens b ! t)"
proof -
  assume sf: "sameFrame b b'" and t: "t < length (numberTokens b)"
  then have m: "map token_value (numberTokens b') = map token_value (numberTokens b)"
    by (simp add: sameFrame_def)
  then have "length (numberTokens b') = length (numberTokens b)" by (rule map_eq_imp_length_eq)
  with t m show ?thesis by (metis nth_map)
qed

lemma placeZip_correct:
  assumes "placeInv b S tks ks"
    and "\<forall>t \<in> set tks. \<not> isHighProbability (token_value (numberTokens b ! t))"
  shows "tokensBound (fold (\<lambda>(tk, k). placeOnHex tk k) (zip tks ks) b) (S \<union> set tks)
     \<and> sameFrame b (fold (\<lambda>(tk, k). placeOnHex tk k) (zip tks ks) b)
     \<and> (\<forall>k. tokenAt (fold (\<lambda>(tk, k). placeOnHex tk k) (zip tks ks) b) k \<noteq> None
            \<longrightarrow> tokenAt b k \<noteq> None \<or> k \<in> set ks)
     \<and> hasRedToken (fold (\<lambda>(tk, k). placeOnHex tk k) (zip tks ks) b) = hasRedToken b"
  using assms
proof (induction tks arbitrary: b S ks)
  case Nil
  then show ?case by (simp add: placeInv_def)
next
  case (Cons tk tks)
  note inv = Cons.prems(1)
  from inv obtain k ks' where ks: "ks = k # ks'"
    by (cases ks) (auto simp: placeInv_def)
  let ?b1 = "placeOnHex tk k b"
  let ?b' = "fold (\<lambda>(tk, k). placeOnHex tk k) (zip tks ks') ?b1"
  have sel: "k \<in> set ks" by (simp add: ks)
  note st = placeStep[OF inv sel]
  have inv1: "placeInv ?b1 (insert tk S) tks ks'" using st(1) by (simp add: ks)
  from inv have tl: "tk < length (numberTokens b)" "\<forall>t \<in> set tks. t < length (numberTokens b)"
    and un: "tokenAt b k = None"
    by (auto simp: placeInv_def ks)
  have low: "\<forall>t \<in> set tks. \<not> isHighProbability (token_value (numberTokens ?b1 ! t))"
    using Cons.prems(2) tl(2) token_value_frame[OF st(2)] by simp
  note ih = Cons.IH[OF inv1 low]
  have fold_eq: "fold (\<lambda>(tk, k). placeOnHex tk k) (zip (tk # tks) ks) b = ?b'"
    by (simp add: ks)
  have r1: "hasRedToken ?b1 = hasRedToken b"
    using Cons.prems(2) by (intro hasRedToken_place_low[OF st(3) un]) simp
  from ih have tb: "tokensBound ?b' (insert tk S \<union> set tks)" and sf: "sameFrame ?b1 ?b'"
    and mk: "\<forall>j. tokenAt ?b' j \<noteq> None \<longrightarrow> tokenAt ?b1 j \<noteq> None \<or> j \<in> set ks'"
    and hr: "hasRedToken ?b' = hasRedToken ?b1"
    by blast+
  have 1: "tokensBound ?b' (S \<union> set (tk # tks))" using tb by simp
  have 2: "sameFrame b ?b'" by (rule sameFrame_trans[OF st(2) sf])
  have 3: "\<forall>j. tokenAt ?b' j \<noteq> None \<longrightarrow> tokenAt b j \<noteq> None \<or> j \<in> set ks"
    using mk by (auto simp: st(3) ks split: if_splits)
  have 4: "hasRedToken ?b' = hasRedToken b" using hr r1 by simp
  from 1 2 3 4 show ?case unfolding fold_eq by blast
qed

subsection \<open>The hexes before the graph is built\<close>

lemma distinct_hexLayout: "distinct hexLayout" and length_hexLayout: "length hexLayout = 19"
  by (simp_all add: hexLayout_def)

lemma createHexes_core:
  "coreList (createHexes ts (clear b0))
     = map (\<lambda>ik. (snd ik, terrainAt ts (fst ik), None, False, [])) (enumerate 0 hexLayout)"
  by (simp add: createHexes_def hexLayout_def addHex_def clear_def coreList_def hexCore_def newHex_def)

lemma createHexes_fields:
  "numberTokens (createHexes ts b) = numberTokens b \<and> robber_hex (createHexes ts b) = robber_hex b"
proof -
  have "\<And>xs. numberTokens (fold (\<lambda>(i, k). addHex k (newHex (terrainAt ts i))) xs b) = numberTokens b
    \<and> robber_hex (fold (\<lambda>(i, k). addHex k (newHex (terrainAt ts i))) xs b) = robber_hex b"
  proof -
    fix xs show "numberTokens (fold (\<lambda>(i, k). addHex k (newHex (terrainAt ts i))) xs b) = numberTokens b
    \<and> robber_hex (fold (\<lambda>(i, k). addHex k (newHex (terrainAt ts i))) xs b) = robber_hex b"
      by (induction xs arbitrary: b) (auto simp: addHex_def)
  qed
  then show ?thesis by (simp add: createHexes_def)
qed


lemma buildRelationships_fields:
  "(numberTokens (buildRelationships b), robber_hex (buildRelationships b))
     = (numberTokens b, robber_hex b)"
proof -
  let ?V = "\<lambda>b. (numberTokens b, robber_hex b)"
  have cv: "\<And>hk d b. ?V (createVertexFor hk d b) = ?V b"
    by (simp add: createVertexFor_def Let_def split: option.splits)
  have ce: "\<And>hk d b. ?V (createEdgeFor hk d b) = ?V b"
    by (simp add: createEdgeFor_def Let_def)
  have ln: "\<And>hk off b. ?V (linkNeighbor hk off b) = ?V b"
    by (simp add: linkNeighbor_def split: option.splits)
  have le: "\<And>vk ek b. numberTokens (linkVertexEdge vk ek b) = numberTokens b"
    "\<And>vk ek b. robber_hex (linkVertexEdge vk ek b) = robber_hex b"
    by (simp_all add: linkVertexEdge_def Let_def split: option.splits)
  have cvs: "\<And>hk b. ?V (createVerticesForHex hk b) = ?V b"
    unfolding createVerticesForHex_def by (rule fold_preserves) (rule cv)
  have ces: "\<And>hk b. ?V (createEdgesForHex hk b) = ?V b"
    unfolding createEdgesForHex_def by (rule fold_preserves) (rule ce)
  have lva: "\<And>hk iv b. ?V (linkVertexAt hk iv b) = ?V b"
    unfolding linkVertexAt_def
    by (rule fold_preserves) (simp add: le split: option.splits)
  have lh: "\<And>hk b. ?V (linkHexRelationships hk b) = ?V b"
  proof -
    fix hk b
    have 1: "?V (fold (linkNeighbor hk) neighborOffsets b) = ?V b"
      by (rule fold_preserves) (rule ln)
    have 2: "\<And>xs c. ?V (fold (linkVertexAt hk) xs c) = ?V c"
      by (rule fold_preserves) (rule lva)
    show "?V (linkHexRelationships hk b) = ?V b"
      using 1 2 by (simp add: linkHexRelationships_def Let_def split: option.splits)
  qed
  have p1: "\<And>ks b. ?V (fold (\<lambda>k b. createEdgesForHex k (createVerticesForHex k b)) ks b) = ?V b"
    by (rule fold_preserves) (simp add: ces cvs)
  have p2: "\<And>ks b. ?V (fold linkHexRelationships ks b) = ?V b"
    by (rule fold_preserves) (rule lh)
  show ?thesis
    unfolding buildRelationships_def Let_def using p1 p2 by simp
qed

subsection \<open>The coordinates adjacent to a hex\<close>

lemma nbrs_sym:
  assumes "n \<in> set (nbrs K k)" "k \<in> set K"
  shows "n \<noteq> k \<and> k \<in> set (nbrs K n)"
proof -
  from assms(1) obtain off where off: "off \<in> set neighborOffsets"
    "n = (fst k + fst off, snd k + snd off)" and nK: "n \<in> set K"
    by (auto simp: nbrs_def)
  from off(1) have neg: "(- fst off, - snd off) \<in> set neighborOffsets" and nz: "off \<noteq> (0, 0)"
    by (auto simp: neighborOffsets_def)
  have "k = (fst n + (- fst off), snd n + (- snd off))" using off(2) by simp
  with neg assms(2) have "k \<in> set (nbrs K n)"
    unfolding nbrs_def by (auto simp: image_iff intro!: bexI[of _ "(- fst off, - snd off)"])
  moreover have "n \<noteq> k" using off(2) nz by (cases k; cases off) auto
  ultimately show ?thesis by simp
qed


subsection \<open>All tokens are placed\<close>

lemma standardSet_indices:
  "length createStandardSet = 18"
  "filter (\<lambda>i. isHighProbability (token_value (createStandardSet ! i))) [0..<18] = [7, 8, 9, 10]"
  "filter (\<lambda>i. \<not> isHighProbability (token_value (createStandardSet ! i))) [0..<18]
     = [0, 1, 2, 3, 4, 5, 6, 11, 12, 13, 14, 15, 16, 17]"
  by (simp_all add: createStandardSet_def isHighProbability_def upt_rec[of _ 18] upt_rec[of _ "numeral _"])


lemma views_numberTokens_update:
  "keysOf (b\<lparr>numberTokens := x\<rparr>) = keysOf b"
  "terrainList (b\<lparr>numberTokens := x\<rparr>) = terrainList b"
  "tokenAt (b\<lparr>numberTokens := x\<rparr>) = tokenAt b"
  "robberAt (b\<lparr>numberTokens := x\<rparr>) = robberAt b"
  "neighborsOf (b\<lparr>numberTokens := x\<rparr>) = neighborsOf b"
  "hasRedToken (b\<lparr>numberTokens := x\<rparr>) = hasRedToken b"
  by (simp_all add: keysOf_def terrainList_def tokenAt_def robberAt_def neighborsOf_def
        hasRedToken_def fun_eq_iff)

lemma resourceHexes_terrainList:
  "map fst (filter (\<lambda>kh. terrain (snd kh) \<noteq> ''desert'') (hexes b))
     = map fst (filter (\<lambda>kt. snd kt \<noteq> ''desert'') (terrainList b))"
  by (simp add: terrainList_def filter_map comp_def)

lemma hasNoToken_unmarked:
  "set L \<subseteq> set (keysOf b) \<Longrightarrow> filter (hasNoToken b) L = unmarked b L"
  unfolding unmarked_def
  by (rule filter_cong) (auto simp: hasNoToken_def tokenAt_def in_keysOf_iff split: option.splits)

lemma placeNumberTokens_correct:
  assumes pn: "placeNumberTokens rs b0 = (b', rs', warned)"
    and dk: "distinct (keysOf b0)" and nt: "\<forall>k. tokenAt b0 k = None"
    and len: "18 \<le> length (filter (\<lambda>kt. snd kt \<noteq> ''desert'') (terrainList b0))"
  shows "sameFrame (b0\<lparr>numberTokens := createStandardSet\<rparr>) b'
     \<and> tokensBound b' {0..<18} \<and> length (numberTokens b') = 18
     \<and> (\<forall>k. tokenAt b' k \<noteq> None \<longrightarrow> (\<exists>t. (k, t) \<in> set (terrainList b0) \<and> t \<noteq> ''desert''))
     \<and> (warned = 0 \<longrightarrow> symNeighbors b0 \<longrightarrow> redApart b')
     \<and> (neighborsOf b0 = (\<lambda>k. if k \<in> set hexLayout then nbrs hexLayout k else [])
          \<longrightarrow> (\<exists>d. \<forall>k \<in> set hexLayout. k \<noteq> d
                 \<longrightarrow> (\<exists>t. (k, t) \<in> set (terrainList b0) \<and> t \<noteq> ''desert''))
          \<longrightarrow> warned = 0)"
proof -
  define b where "b = b0\<lparr>numberTokens := createStandardSet\<rparr>"
  define R where "R = map fst (filter (\<lambda>kt. snd kt \<noteq> ''desert'') (terrainList b0))"
  have toks: "numberTokens b = createStandardSet" "length (numberTokens b) = 18"
    by (simp_all add: b_def standardSet_indices)
  have vb: "keysOf b = keysOf b0" "tokenAt b = tokenAt b0" "neighborsOf b = neighborsOf b0"
    "hasRedToken b = hasRedToken b0"
    by (simp_all add: b_def views_numberTokens_update)
  have Rb: "map fst (filter (\<lambda>kh. terrain (snd kh) \<noteq> ''desert'') (hexes b)) = R"
    by (simp add: R_def b_def resourceHexes_terrainList[symmetric])
  have R: "distinct R" "set R \<subseteq> set (keysOf b)" "18 \<le> length R"
    "\<And>k. k \<in> set R \<Longrightarrow> \<exists>t. (k, t) \<in> set (terrainList b0) \<and> t \<noteq> ''desert''"
  proof -
    have "distinct (map fst (terrainList b0))" using dk by (simp add: keysOf_terrainList)
    then show "distinct R" unfolding R_def by (rule distinct_map_filter)
    show "set R \<subseteq> set (keysOf b)"
      unfolding vb by (auto simp: R_def keysOf_terrainList intro: image_eqI[rotated])
    show "18 \<le> length R" using len by (simp add: R_def)
    show "\<And>k. k \<in> set R \<Longrightarrow> \<exists>t. (k, t) \<in> set (terrainList b0) \<and> t \<noteq> ''desert''"
      by (auto simp: R_def)
  qed
  obtain red rs1 where s1: "shuffleArray [7, 8, 9, 10::nat] rs = (red, rs1)"
    by (cases "shuffleArray [7, 8, 9, 10::nat] rs") auto
  obtain low rs2 where s2:
    "shuffleArray [0, 1, 2, 3, 4, 5, 6, 11, 12, 13, 14, 15, 16, 17::nat] rs1 = (low, rs2)"
    by (cases "shuffleArray [0, 1, 2, 3, 4, 5, 6, 11, 12, 13, 14, 15, 16, 17::nat] rs1") auto
  obtain b1 rs3 w where pr: "placeRedTokensWithConstraint red R rs2 b 0 = (b1, rs3, w)"
    by (cases "placeRedTokensWithConstraint red R rs2 b 0") auto
  obtain b2 rs4 where prem: "placeRemainingTokens low R rs3 b1 = (b2, rs4)"
    by (cases "placeRemainingTokens low R rs3 b1") auto
  from pn have "(b2, rs4, w) = (b', rs', warned)"
    unfolding placeNumberTokens_def Let_def b_def[symmetric] Rb toks standardSet_indices
      s1 s2 pr prem prod.case .
  then have res: "b' = b2" "warned = w" by simp_all
  note sr = shuffleArray_props[OF s1]
  note sl = shuffleArray_props[OF s2]
  have redset: "set red = {7, 8, 9, 10}" "distinct red" "length red = 4"
    using sr by simp_all
  have lowset: "set low = {0, 1, 2, 3, 4, 5, 6, 11, 12, 13, 14, 15, 16, 17}" "distinct low"
    "length low = 14"
    using sl by simp_all
  have tb0: "tokensBound b {}"
    by (simp add: tokensBound_def toks createStandardSet_def nth_Cons' )
  have inv: "placeInv b {} red R"
    unfolding placeInv_def using tb0 redset R nt by (auto simp: toks vb standardSet_indices(1))
  note c1 = placeRed_correct[OF inv pr R(1)]
  from c1 have tb1: "tokensBound b1 (set red)" and sf1: "sameFrame b b1"
    and un1: "length (unmarked b R) \<le> length (unmarked b1 R) + length red"
    and mk1: "\<forall>k. tokenAt b1 k \<noteq> None \<longrightarrow> tokenAt b k \<noteq> None \<or> k \<in> set R"
    and ra1: "w = 0 \<longrightarrow> symNeighbors b \<longrightarrow> redApart b \<longrightarrow> redApart b1"
    by simp_all
  have "unmarked b R = R" by (simp add: unmarked_def vb nt)
  with un1 R(3) redset have u14: "14 \<le> length (unmarked b1 R)" by simp
  obtain sh rs5 where s3: "shuffleArray (unmarked b1 R) rs3 = (sh, rs5)"
    by (cases "shuffleArray (unmarked b1 R) rs3") auto
  note ss = shuffleArray_props[OF s3]
  have k1: "keysOf b1 = keysOf b" using sf1 by (simp add: sameFrame_def)
  have fl: "filter (hasNoToken b1) R = unmarked b1 R"
    using R(2) by (intro hasNoToken_unmarked) (simp add: k1)
  from prem have b2: "b2 = fold (\<lambda>(tk, k). placeOnHex tk k) (zip low sh) b1"
    by (simp add: placeRemainingTokens_def fl s3)
  have l1: "length (numberTokens b1) = 18"
    using sf1 toks map_eq_imp_length_eq[of token_value "numberTokens b1" token_value "numberTokens b"]
    by (simp add: sameFrame_def)
  have inv2: "placeInv b1 (set red) low sh"
    unfolding placeInv_def
    using tb1 lowset redset ss u14 R(1,2) k1
    by (auto simp: l1 unmarked_def)
  have lowv: "\<forall>t \<in> set low. \<not> isHighProbability (token_value (numberTokens b1 ! t))"
  proof
    fix t assume t: "t \<in> set low"
    then have "t < length (numberTokens b)" using lowset toks by auto
    then have "token_value (numberTokens b1 ! t) = token_value (createStandardSet ! t)"
      using token_value_frame[OF sf1] toks by simp
    moreover have "\<not> isHighProbability (token_value (createStandardSet ! t))"
      using t lowset by (auto simp: createStandardSet_def isHighProbability_def)
    ultimately show "\<not> isHighProbability (token_value (numberTokens b1 ! t))" by simp
  qed
  note c2 = placeZip_correct[OF inv2 lowv, folded b2]
  from c2 have tb2: "tokensBound b2 (set red \<union> set low)" and sf2: "sameFrame b1 b2"
    and mk2: "\<forall>k. tokenAt b2 k \<noteq> None \<longrightarrow> tokenAt b1 k \<noteq> None \<or> k \<in> set sh"
    and hr2: "hasRedToken b2 = hasRedToken b1"
    by simp_all
  have all: "set red \<union> set low = {0..<18}"
    unfolding redset lowset by (auto simp: atLeastLessThan_def lessThan_def) presburger
  have A: "sameFrame b b2" by (rule sameFrame_trans[OF sf1 sf2])
  have B: "tokensBound b2 {0..<18}" using tb2 all by simp
  have C: "length (numberTokens b2) = 18"
    using A toks map_eq_imp_length_eq[of token_value "numberTokens b2" token_value "numberTokens b"]
    by (simp add: sameFrame_def)
  have D: "\<forall>k. tokenAt b2 k \<noteq> None \<longrightarrow> (\<exists>t. (k, t) \<in> set (terrainList b0) \<and> t \<noteq> ''desert'')"
  proof (intro allI impI)
    fix k assume "tokenAt b2 k \<noteq> None"
    with mk2 have "tokenAt b1 k \<noteq> None \<or> k \<in> set sh" by blast
    moreover have "tokenAt b k = None" by (simp add: vb nt)
    moreover have "set sh \<subseteq> set R" using ss(1) by (auto simp: unmarked_def)
    ultimately have "k \<in> set R" using mk1 by blast
    then show "\<exists>t. (k, t) \<in> set (terrainList b0) \<and> t \<noteq> ''desert''" by (rule R(4))
  qed
  have E: "warned = 0 \<longrightarrow> symNeighbors b0 \<longrightarrow> redApart b2"
  proof (intro impI)
    assume w0: "warned = 0" and sy: "symNeighbors b0"
    have syb: "symNeighbors b" using sy by (simp add: symNeighbors_def vb)
    have "redApart b" by (simp add: redApart_def hasRedToken_tokenAt vb nt)
    with ra1 w0 res syb have "redApart b1" by simp
    moreover have "neighborsOf b2 = neighborsOf b1" using sf2 by (simp add: sameFrame_def)
    ultimately show "redApart b2" by (simp add: redApart_def hr2)
  qed
  have F: "neighborsOf b0 = (\<lambda>k. if k \<in> set hexLayout then nbrs hexLayout k else [])
          \<longrightarrow> (\<exists>d. \<forall>k \<in> set hexLayout. k \<noteq> d
                 \<longrightarrow> (\<exists>t. (k, t) \<in> set (terrainList b0) \<and> t \<noteq> ''desert''))
          \<longrightarrow> w = 0"
  proof (intro impI)
    assume n0: "neighborsOf b0 = (\<lambda>k. if k \<in> set hexLayout then nbrs hexLayout k else [])"
      and "\<exists>d. \<forall>k \<in> set hexLayout. k \<noteq> d
                 \<longrightarrow> (\<exists>t. (k, t) \<in> set (terrainList b0) \<and> t \<noteq> ''desert'')"
    then obtain d where d: "\<And>k. k \<in> set hexLayout \<Longrightarrow> k \<noteq> d
        \<Longrightarrow> \<exists>t. (k, t) \<in> set (terrainList b0) \<and> t \<noteq> ''desert''"
      by blast
    have sub: "set hexLayout - insert d {} \<subseteq> set R"
    proof
      fix k assume "k \<in> set hexLayout - insert d {}"
      then have "k \<in> set hexLayout" "k \<noteq> d" by simp_all
      from d[OF this] obtain t where "(k, t) \<in> set (terrainList b0)" "t \<noteq> ''desert''"
        by blast
      then show "k \<in> set R" unfolding R_def by force
    qed
    show "w = 0"
      by (rule placeRed_no_fallback[OF inv pr _ _ _ _ sub])
         (simp_all add: vb n0 nt redset)
  qed
  from A B C D E F show ?thesis unfolding res b_def by blast
qed

subsection \<open>The robber\<close>

lemma robber_moveTo_views:
  assumes "robber_hex b = None"
  shows "keysOf (robber_moveTo d b) = keysOf b"
    "terrainList (robber_moveTo d b) = terrainList b"
    "tokenAt (robber_moveTo d b) = tokenAt b"
    "neighborsOf (robber_moveTo d b) = neighborsOf b"
    "numberTokens (robber_moveTo d b) = numberTokens b"
    "robber_hex (robber_moveTo d b) = Some d"
    "d \<in> set (keysOf b) \<Longrightarrow> robberAt (robber_moveTo d b) d"
    "vertices (robber_moveTo d b) = vertices b"
    "edges (robber_moveTo d b) = edges b"
proof -
  have eq: "robber_moveTo d b
      = b\<lparr>robber_hex := Some d, hexes := AList.map_entry d (\<lambda>h. h\<lparr>hasRobber := True\<rparr>) (hexes b)\<rparr>"
    using assms by (simp add: robber_moveTo_def Let_def)
  show "keysOf (robber_moveTo d b) = keysOf b"
    by (simp add: eq keysOf_def map_entry_proj[where pr = "\<lambda>x. ()", simplified])
  show "terrainList (robber_moveTo d b) = terrainList b"
    by (simp add: eq terrainList_def map_entry_proj)
  show "tokenAt (robber_moveTo d b) = tokenAt b"
    by (auto simp: eq tokenAt_def fun_eq_iff AList.map_of_map_entry split: option.splits)
  show "neighborsOf (robber_moveTo d b) = neighborsOf b"
    by (auto simp: eq neighborsOf_def fun_eq_iff AList.map_of_map_entry split: option.splits)
  show "numberTokens (robber_moveTo d b) = numberTokens b" by (simp add: eq)
  show "robber_hex (robber_moveTo d b) = Some d" by (simp add: eq)
  show "d \<in> set (keysOf b) \<Longrightarrow> robberAt (robber_moveTo d b) d"
    by (auto simp: eq robberAt_def in_keysOf_iff AList.map_of_map_entry split: option.splits)
  show "vertices (robber_moveTo d b) = vertices b" "edges (robber_moveTo d b) = edges b"
    by (simp_all add: eq)
qed

lemma views_isGenerated_update:
  "keysOf (b\<lparr>isGenerated := x\<rparr>) = keysOf b"
  "terrainList (b\<lparr>isGenerated := x\<rparr>) = terrainList b"
  "tokenAt (b\<lparr>isGenerated := x\<rparr>) = tokenAt b"
  "robberAt (b\<lparr>isGenerated := x\<rparr>) = robberAt b"
  "neighborsOf (b\<lparr>isGenerated := x\<rparr>) = neighborsOf b"
  "hasRedToken (b\<lparr>isGenerated := x\<rparr>) = hasRedToken b"
  "tokensBound (b\<lparr>isGenerated := x\<rparr>) S = tokensBound b S"
  by (simp_all add: keysOf_def terrainList_def tokenAt_def robberAt_def neighborsOf_def
        hasRedToken_def tokensBound_def fun_eq_iff)

subsection \<open>Terrains\<close>

lemma terrainAt_all: "length ts = n \<Longrightarrow> map (terrainAt ts) [0..<n] = ts"
  by (auto simp: terrainAt_def intro: nth_equalityI)

lemma count_desert: "mset ts = mset terrains \<Longrightarrow> length (filter (\<lambda>t. t = ''desert'') ts) = 1"
proof -
  assume m: "mset ts = mset terrains"
  have "length (filter (\<lambda>t. t = ''desert'') ts) = size (filter_mset (\<lambda>t. t = ''desert'') (mset ts))"
    by (metis mset_filter size_mset)
  also have "\<dots> = size (filter_mset (\<lambda>t. t = ''desert'') (mset terrains))" by (simp add: m)
  also have "\<dots> = 1" by (simp add: terrains_def)
  finally show ?thesis .
qed

lemma built_terrainList:
  assumes "length ts = 19"
  shows "map snd (terrainList (createHexes ts (clear b0))) = ts"
    "map fst (terrainList (createHexes ts (clear b0))) = hexLayout"
proof -
  have t: "terrainList (createHexes ts (clear b0))
      = map (\<lambda>ik. (snd ik, terrainAt ts (fst ik))) (enumerate 0 hexLayout)"
    by (simp add: terrainList_coreList createHexes_core comp_def)
  have "map snd (terrainList (createHexes ts (clear b0))) = map (terrainAt ts) [0..<19]"
    by (simp add: t comp_def enumerate_eq_zip length_hexLayout map_fst_zip_take
          flip: map_map[of "terrainAt ts" fst, unfolded comp_def])
  then show "map snd (terrainList (createHexes ts (clear b0))) = ts"
    using terrainAt_all[OF assms] by simp
  show "map fst (terrainList (createHexes ts (clear b0))) = hexLayout"
    by (simp add: t comp_def enumerate_eq_zip flip: map_map[of id snd, unfolded comp_def])
qed


subsection \<open>The generated board\<close>

lemma find_filter_Cons: "filter P xs = x # ys \<Longrightarrow> find P xs = Some x"
  by (induction xs) (auto split: if_splits)

lemma filter_terrainList:
  "filter (\<lambda>kt. P (snd kt)) (terrainList b)
     = map (\<lambda>kh. (fst kh, terrain (snd kh))) (filter (\<lambda>kh. P (terrain (snd kh))) (hexes b))"
  by (simp add: terrainList_def filter_map comp_def)

lemma terrain_unique:
  "distinct (keysOf b) \<Longrightarrow> (k, t) \<in> set (terrainList b) \<Longrightarrow> (k, t') \<in> set (terrainList b) \<Longrightarrow> t = t'"
  by (metis keysOf_terrainList map_of_is_SomeI option.inject)

lemma createHexes_blank:
  "tokenAt (createHexes ts (clear b0)) k = None"
  "robberAt (createHexes ts (clear b0)) k = False"
  "neighborsOf (createHexes ts (clear b0)) k = []"
proof -
  let ?cl = "coreList (createHexes ts (clear b0))"
  have "\<And>c. map_of ?cl k = Some c \<Longrightarrow> snd c = (None, False, [])"
  proof -
    fix c assume "map_of ?cl k = Some c"
    then have "(k, c) \<in> set ?cl" by (rule map_of_SomeD)
    then show "snd c = (None, False, [])" unfolding createHexes_core by auto
  qed
  then show "tokenAt (createHexes ts (clear b0)) k = None"
    "robberAt (createHexes ts (clear b0)) k = False"
    "neighborsOf (createHexes ts (clear b0)) k = []"
    by (auto simp: tokenAt_coreList robberAt_coreList neighborsOf_coreList split: option.splits)
qed

lemma generated_facts:
  assumes gen: "generateStandardBoard rs b0 = (B, rs', warned)"
  shows "keysOf B = hexLayout"
    and "length (numberTokens B) = 18"
    and "map token_value (numberTokens B) = map token_value createStandardSet"
    and "tokensBound B {0..<18}"
    and "\<exists>d. map fst (filter (\<lambda>kt. snd kt = ''desert'') (terrainList B)) = [d]
            \<and> tokenAt B d = None \<and> robberAt B d \<and> robber_hex B = Some d"
    and "mset (map snd (terrainList B)) = mset terrains"
    and "neighborsOf B = (\<lambda>k. if k \<in> set hexLayout then nbrs hexLayout k else [])"
    and "warned = 0"
    and "redApart B"
    and "\<exists>ts. length ts = 19
            \<and> vertices B = vertices (buildRelationships (createHexes ts (clear b0)))
            \<and> edges B = edges (buildRelationships (createHexes ts (clear b0)))"
proof -
  obtain ts rs1 where sh: "shuffleArray terrains rs = (ts, rs1)"
    by (cases "shuffleArray terrains rs") auto
  define b2 where "b2 = createHexes ts (clear b0)"
  define b3 where "b3 = buildRelationships b2"
  obtain b4 rs2 w where pn: "placeNumberTokens rs1 b3 = (b4, rs2, w)"
    by (cases "placeNumberTokens rs1 b3") auto
  from gen have B: "B = (placeRobberOnDesert b4)\<lparr>isGenerated := True\<rparr>" and w: "warned = w"
    by (simp_all add: generateStandardBoard_def Let_def sh b2_def[symmetric] b3_def[symmetric] pn)
  have ms: "mset ts = mset terrains" by (rule mset_shuffleArray[OF sh])
  then have lt: "length ts = 19" using mset_eq_length[OF ms] by (simp add: terrains_def)
  have k2: "keysOf b2 = hexLayout" and t2: "map snd (terrainList b2) = ts"
    using built_terrainList[OF lt, of b0] by (simp_all add: b2_def keysOf_terrainList)
  have d2: "distinct (keysOf b2)" by (simp add: k2 distinct_hexLayout)
  note v3 = buildRelationships_views[OF d2, folded b3_def]
  have blank: "\<And>k. tokenAt b2 k = None" "\<And>k. neighborsOf b2 k = []"
    by (simp_all add: b2_def createHexes_blank)
  have k3: "keysOf b3 = hexLayout" and t3: "terrainList b3 = terrainList b2"
    and tok3: "\<forall>k. tokenAt b3 k = None"
    and n3: "neighborsOf b3 = (\<lambda>k. if k \<in> set hexLayout then nbrs hexLayout k else [])"
    using v3 blank by (simp_all add: k2 fun_eq_iff)
  have rh3: "robber_hex b3 = None"
    using buildRelationships_fields[of b2] createHexes_fields[of ts "clear b0"]
    by (simp add: b3_def b2_def clear_def)
  have sym3: "symNeighbors b3"
    unfolding symNeighbors_def n3 using nbrs_sym[of _ hexLayout] by (auto split: if_splits simp: nbrs_def)
  have des: "length (filter (\<lambda>kt. snd kt = ''desert'') (terrainList b3)) = 1"
  proof -
    have "length (filter (\<lambda>kt. snd kt = ''desert'') (terrainList b3))
        = length (filter (\<lambda>t. t = ''desert'') (map snd (terrainList b3)))"
      by (simp add: filter_map comp_def)
    then show ?thesis using count_desert[OF ms] by (simp add: t3 t2)
  qed
  have l3: "length (terrainList b3) = 19"
    using k3 by (simp add: keysOf_terrainList[symmetric] flip: length_map[of fst "terrainList b3"])
       (simp add: length_hexLayout)
  have nd: "18 \<le> length (filter (\<lambda>kt. snd kt \<noteq> ''desert'') (terrainList b3))"
    using sum_length_filter_compl[of "\<lambda>kt. snd kt = ''desert''" "terrainList b3"] des l3 by simp
  have d3: "distinct (keysOf b3)" by (simp add: k3 distinct_hexLayout)
  note c = placeNumberTokens_correct[OF pn d3 tok3 nd]
  from c have sf: "sameFrame (b3\<lparr>numberTokens := createStandardSet\<rparr>) b4"
    and tb4: "tokensBound b4 {0..<18}" and l4: "length (numberTokens b4) = 18"
    and mk4: "\<forall>k. tokenAt b4 k \<noteq> None \<longrightarrow> (\<exists>t. (k, t) \<in> set (terrainList b3) \<and> t \<noteq> ''desert'')"
    and ra4: "w = 0 \<longrightarrow> symNeighbors b3 \<longrightarrow> redApart b4"
    and nf4: "neighborsOf b3 = (\<lambda>k. if k \<in> set hexLayout then nbrs hexLayout k else [])
          \<longrightarrow> (\<exists>d. \<forall>k \<in> set hexLayout. k \<noteq> d
                 \<longrightarrow> (\<exists>t. (k, t) \<in> set (terrainList b3) \<and> t \<noteq> ''desert''))
          \<longrightarrow> w = 0"
    by blast+
  from sf have k4: "keysOf b4 = hexLayout" and t4: "terrainList b4 = terrainList b3"
    and n4: "neighborsOf b4 = neighborsOf b3" and rh4: "robber_hex b4 = None"
    and tv4: "map token_value (numberTokens b4) = map token_value createStandardSet"
    by (simp_all add: sameFrame_def views_numberTokens_update k3 rh3)
  from des obtain x where x: "filter (\<lambda>kt. snd kt = ''desert'') (terrainList b4) = [x]"
    unfolding t4 by (auto simp: length_Suc_conv)
  then have "x \<in> set (filter (\<lambda>kt. snd kt = ''desert'') (terrainList b4))" by simp
  then have xin: "x \<in> set (terrainList b4)" "snd x = ''desert''" by simp_all
  obtain d where dx: "x = (d, ''desert'')" using xin(2) by (cases x) auto
  from x obtain kh where kh: "filter (\<lambda>kh. terrain (snd kh) = ''desert'') (hexes b4) = [kh]"
    "fst kh = d"
    unfolding filter_terrainList[of "\<lambda>t. t = ''desert''"] dx by (auto simp: map_eq_Cons_conv)
  have fd: "find (\<lambda>kh. terrain (snd kh) = ''desert'') (hexes b4) = Some kh"
    by (rule find_filter_Cons[OF kh(1)])
  have pr: "placeRobberOnDesert b4 = robber_moveTo d b4"
    by (simp add: placeRobberOnDesert_def fd kh(2))
  have din: "d \<in> set (keysOf b4)"
    using xin(1) by (auto simp: dx keysOf_terrainList intro: image_eqI[rotated])
  note rv = robber_moveTo_views[OF rh4, of d]
  note ig = views_isGenerated_update
  show "keysOf B = hexLayout" by (simp add: B pr ig rv k4)
  show "length (numberTokens B) = 18" by (simp add: B pr rv l4)
  show "map token_value (numberTokens B) = map token_value createStandardSet"
    by (simp add: B pr rv tv4)
  show "tokensBound B {0..<18}"
    using tb4 by (simp add: B pr ig tokensBound_def rv)
  have tB: "terrainList B = terrainList b4" by (simp add: B pr ig rv)
  have "tokenAt b4 d = None"
  proof (rule ccontr)
    assume "tokenAt b4 d \<noteq> None"
    with mk4 obtain t where t: "(d, t) \<in> set (terrainList b3)" "t \<noteq> ''desert''" by blast
    from xin(1) have "(d, ''desert'') \<in> set (terrainList b3)" by (simp add: dx t4)
    from terrain_unique[OF d3 t(1) this] t(2) show False by simp
  qed
  moreover have "robberAt B d" using rv(7)[OF din] by (simp add: B pr ig)
  moreover have "robber_hex B = Some d" by (simp add: B pr rv)
  moreover have "map fst (filter (\<lambda>kt. snd kt = ''desert'') (terrainList B)) = [d]"
    by (simp add: tB x dx)
  ultimately show "\<exists>d. map fst (filter (\<lambda>kt. snd kt = ''desert'') (terrainList B)) = [d]
            \<and> tokenAt B d = None \<and> robberAt B d \<and> robber_hex B = Some d"
    by (auto simp: B pr ig rv(3))
  show "mset (map snd (terrainList B)) = mset terrains" by (simp add: tB t4 t3 t2 ms)
  show "neighborsOf B = (\<lambda>k. if k \<in> set hexLayout then nbrs hexLayout k else [])"
    by (simp add: B pr ig rv n4 n3)
  have "\<forall>k \<in> set hexLayout. k \<noteq> d
      \<longrightarrow> (\<exists>t. (k, t) \<in> set (terrainList b3) \<and> t \<noteq> ''desert'')"
  proof (intro ballI impI)
    fix k assume k: "k \<in> set hexLayout" "k \<noteq> d"
    from k(1) obtain t where t: "(k, t) \<in> set (terrainList b3)"
      unfolding k3[symmetric] keysOf_terrainList by auto
    have "t \<noteq> ''desert''"
    proof
      assume "t = ''desert''"
      with t have "(k, t) \<in> set (filter (\<lambda>kt. snd kt = ''desert'') (terrainList b4))"
        by (simp add: t4)
      with x dx k(2) show False by simp
    qed
    with t show "\<exists>t. (k, t) \<in> set (terrainList b3) \<and> t \<noteq> ''desert''" by blast
  qed
  with nf4 n3 have w0: "w = 0" by blast
  then show "warned = 0" by (simp add: w)
  have "vertices b4 = vertices b3" "edges b4 = edges b3"
    using sf by (simp_all add: sameFrame_def)
  then have "vertices B = vertices b3 \<and> edges B = edges b3"
    by (simp add: B pr rv)
  with lt show "\<exists>ts. length ts = 19
            \<and> vertices B = vertices (buildRelationships (createHexes ts (clear b0)))
            \<and> edges B = edges (buildRelationships (createHexes ts (clear b0)))"
    unfolding b3_def b2_def by blast
  show "redApart B"
  proof -
    from ra4 w0 sym3 have r: "redApart b4" by simp
    have "hasRedToken B = hasRedToken b4"
      by (simp add: fun_eq_iff hasRedToken_tokenAt B pr ig rv)
    moreover have "neighborsOf B = neighborsOf b4" by (simp add: B pr ig rv)
    ultimately show "redApart B" using r by (simp add: redApart_def)
  qed
qed

subsection \<open>Claims about the generated board\<close>

lemma generateStandardBoard_result:
  "generateStandardBoard rs b0
     = (fst (generateStandardBoard rs b0), fst (snd (generateStandardBoard rs b0)),
        snd (snd (generateStandardBoard rs b0)))"
  by simp

text \<open>
  Claim C5. Whatever the board was before and whatever the random draws are,
  \<^verbatim>\<open>generateStandardBoard\<close> leaves a board with exactly 19 hexes (those of the standard
  layout), exactly 18 number tokens, each of them bound to a hex that carries it, and
  exactly one desert hex, which carries no token and holds the robber. The previous
  board \<open>b0\<close> is arbitrary, so this covers a repeated call on a generated board.
\<close>

theorem generateStandardBoard_contents:
  assumes "generateStandardBoard rs b0 = (B, rs', warned)"
  shows "length (hexes B) = 19 \<and> map fst (hexes B) = hexLayout
     \<and> length (numberTokens B) = 18
     \<and> (\<forall>i < 18. \<exists>k h. token_hex (numberTokens B ! i) = Some k
            \<and> map_of (hexes B) k = Some h
            \<and> numberToken h = Some (i, token_value (numberTokens B ! i)))
     \<and> (\<exists>d h. filter (\<lambda>kh. terrain (snd kh) = ''desert'') (hexes B) = [(d, h)]
            \<and> numberToken h = None \<and> hasRobber h \<and> robber_hex B = Some d)"
proof -
  note g = generated_facts[OF assms]
  have k: "map fst (hexes B) = hexLayout" using g(1) by (simp add: keysOf_def)
  then have "length (map fst (hexes B)) = 19" by (simp add: length_hexLayout)
  then have l: "length (hexes B) = 19" by simp
  have t: "\<forall>i < 18. \<exists>k h. token_hex (numberTokens B ! i) = Some k
            \<and> map_of (hexes B) k = Some h
            \<and> numberToken h = Some (i, token_value (numberTokens B ! i))"
  proof (intro allI impI)
    fix i :: nat assume i: "i < 18"
    with g(2,4) obtain k where k: "token_hex (numberTokens B ! i) = Some k"
      "tokenAt B k = Some (i, token_value (numberTokens B ! i))"
      by (auto simp: tokensBound_def)
    from k(2) obtain h where "map_of (hexes B) k = Some h"
      "numberToken h = Some (i, token_value (numberTokens B ! i))"
      by (auto simp: tokenAt_def split: option.splits)
    with k(1) show "\<exists>k h. token_hex (numberTokens B ! i) = Some k
            \<and> map_of (hexes B) k = Some h
            \<and> numberToken h = Some (i, token_value (numberTokens B ! i))"
      by blast
  qed
  from g(5) obtain d where d0: "map fst (filter (\<lambda>kt. snd kt = ''desert'') (terrainList B)) = [d]
    \<and> tokenAt B d = None \<and> robberAt B d \<and> robber_hex B = Some d" ..
  then have d: "map fst (filter (\<lambda>kt. snd kt = ''desert'') (terrainList B)) = [d]"
    "tokenAt B d = None" "robberAt B d" "robber_hex B = Some d"
    by simp_all
  from d(1) obtain kh where kh: "filter (\<lambda>kh. terrain (snd kh) = ''desert'') (hexes B) = [kh]"
    "fst kh = d"
    unfolding filter_terrainList[of "\<lambda>t. t = ''desert''"] by (auto simp: map_eq_Cons_conv)
  obtain h where h: "kh = (d, h)" using kh(2) by (cases kh) auto
  have "(d, h) \<in> set (filter (\<lambda>kh. terrain (snd kh) = ''desert'') (hexes B))"
    by (simp add: kh(1) h)
  then have "(d, h) \<in> set (hexes B)" by simp
  moreover have "distinct (map fst (hexes B))" by (simp add: k distinct_hexLayout)
  ultimately have m: "map_of (hexes B) d = Some h" by simp
  with d(2,3) have "numberToken h = None" "hasRobber h"
    by (simp_all add: tokenAt_def robberAt_def)
  with kh(1) h d(4)
  have "\<exists>d h. filter (\<lambda>kh. terrain (snd kh) = ''desert'') (hexes B) = [(d, h)]
            \<and> numberToken h = None \<and> hasRobber h \<and> robber_hex B = Some d"
    by blast
  with l k g(2) t show ?thesis by blast
qed

theorem generateStandardBoard_contents_witness:
  "length (hexes (fst (generateStandardBoard [3, 1, 4]
        (fst (generateStandardBoard [] newBoard))))) = 19
   \<and> length (numberTokens (fst (generateStandardBoard [3, 1, 4]
        (fst (generateStandardBoard [] newBoard))))) = 18
   \<and> (\<exists>d h. filter (\<lambda>kh. terrain (snd kh) = ''desert'')
               (hexes (fst (generateStandardBoard [3, 1, 4]
                  (fst (generateStandardBoard [] newBoard))))) = [(d, h)]
            \<and> numberToken h = None \<and> hasRobber h)"
  using generateStandardBoard_contents[OF generateStandardBoard_result,
      of "[3, 1, 4]" "fst (generateStandardBoard [] newBoard)"]
  by blast

text \<open>
  Claim C6. On every board produced by \<^verbatim>\<open>generateStandardBoard\<close>, for every sequence of
  random draws, the neighbours recorded for a hex are its neighbours in the standard
  layout, and no hex with a token of value 6 or 8 has a neighbour with such a token. The
  fallback branch of \<^verbatim>\<open>placeRedTokensWithConstraint\<close> is never taken: the count of its
  warnings is 0.
\<close>

theorem high_probability_tokens_apart:
  assumes "generateStandardBoard rs b0 = (B, rs', warned)"
  shows "warned = 0
     \<and> (\<forall>k h. map_of (hexes B) k = Some h \<longrightarrow> hex_neighbors h = nbrs hexLayout k)
     \<and> (\<forall>i \<in> {7, 8, 9, 10}. \<exists>k h v. map_of (hexes B) k = Some h
            \<and> numberToken h = Some (i, v) \<and> isHighProbability v)
     \<and> (\<forall>k k' h h' tk tk'.
          map_of (hexes B) k = Some h \<and> map_of (hexes B) k' = Some h'
          \<and> numberToken h = Some tk \<and> numberToken h' = Some tk'
          \<and> isHighProbability (snd tk) \<and> isHighProbability (snd tk')
          \<longrightarrow> k' \<notin> set (hex_neighbors h) \<and> k \<notin> set (hex_neighbors h'))"
proof -
  note g = generated_facts[OF assms]
  have n: "\<forall>k h. map_of (hexes B) k = Some h \<longrightarrow> hex_neighbors h = nbrs hexLayout k"
  proof (intro allI impI)
    fix k h assume m: "map_of (hexes B) k = Some h"
    then have "k \<in> set (keysOf B)" by (simp add: in_keysOf_iff)
    then have "k \<in> set hexLayout" by (simp add: g(1))
    moreover have "neighborsOf B k = hex_neighbors h" by (simp add: neighborsOf_def m)
    ultimately show "hex_neighbors h = nbrs hexLayout k" using g(7) by simp
  qed
  have a: "\<forall>k k' h h' tk tk'.
          map_of (hexes B) k = Some h \<and> map_of (hexes B) k' = Some h'
          \<and> numberToken h = Some tk \<and> numberToken h' = Some tk'
          \<and> isHighProbability (snd tk) \<and> isHighProbability (snd tk')
          \<longrightarrow> k' \<notin> set (hex_neighbors h) \<and> k \<notin> set (hex_neighbors h')"
  proof (intro allI impI)
    fix k k' h h' tk tk'
    assume as: "map_of (hexes B) k = Some h \<and> map_of (hexes B) k' = Some h'
          \<and> numberToken h = Some tk \<and> numberToken h' = Some tk'
          \<and> isHighProbability (snd tk) \<and> isHighProbability (snd tk')"
    then have r: "hasRedToken B k" "hasRedToken B k'" by (simp_all add: hasRedToken_def)
    from as have nb: "neighborsOf B k = hex_neighbors h" "neighborsOf B k' = hex_neighbors h'"
      by (simp_all add: neighborsOf_def)
    from g(9) r have "k' \<notin> set (neighborsOf B k)" "k \<notin> set (neighborsOf B k')"
      unfolding redApart_def by blast+
    then show "k' \<notin> set (hex_neighbors h) \<and> k \<notin> set (hex_neighbors h')" by (simp add: nb)
  qed
  have hp: "\<forall>i \<in> {7, 8, 9, 10}. \<exists>k h v. map_of (hexes B) k = Some h
            \<and> numberToken h = Some (i, v) \<and> isHighProbability v"
  proof
    fix i :: nat assume i: "i \<in> {7, 8, 9, 10}"
    then have i18: "i < 18" by auto
    with g(2,4) obtain k where "tokenAt B k = Some (i, token_value (numberTokens B ! i))"
      by (auto simp: tokensBound_def)
    then obtain h where h: "map_of (hexes B) k = Some h"
      "numberToken h = Some (i, token_value (numberTokens B ! i))"
      by (auto simp: tokenAt_def split: option.splits)
    have "map token_value (numberTokens B) ! i = map token_value createStandardSet ! i"
      by (simp add: g(3))
    then have "token_value (numberTokens B ! i) = token_value (createStandardSet ! i)"
      using i18 g(2) by (simp add: standardSet_indices(1))
    moreover have "isHighProbability (token_value (createStandardSet ! i))"
      using i by (auto simp: createStandardSet_def isHighProbability_def)
    ultimately have "isHighProbability (token_value (numberTokens B ! i))" by simp
    with h show "\<exists>k h v. map_of (hexes B) k = Some h
            \<and> numberToken h = Some (i, v) \<and> isHighProbability v"
      by blast
  qed
  from g(8) n a hp show ?thesis by blast
qed

theorem high_probability_tokens_apart_witness:
  "snd (snd (generateStandardBoard [5, 0, 2] newBoard)) = 0
   \<and> (\<exists>k h v. map_of (hexes (fst (generateStandardBoard [5, 0, 2] newBoard))) k = Some h
          \<and> numberToken h = Some (7, v) \<and> isHighProbability v)"
proof -
  note t = high_probability_tokens_apart[OF generateStandardBoard_result, of "[5, 0, 2]" newBoard]
  from t have "snd (snd (generateStandardBoard [5, 0, 2] newBoard)) = 0" by (rule conjunct1)
  moreover have "\<forall>i \<in> {7, 8, 9, 10}. \<exists>k h v.
      map_of (hexes (fst (generateStandardBoard [5, 0, 2] newBoard))) k = Some h
      \<and> numberToken h = Some (i, v) \<and> isHighProbability v"
    by (rule conjunct1[OF conjunct2[OF conjunct2[OF t]]])
  then have "\<exists>k h v. map_of (hexes (fst (generateStandardBoard [5, 0, 2] newBoard))) k = Some h
      \<and> numberToken h = Some (7, v) \<and> isHighProbability v"
    by (rule bspec) simp
  ultimately show ?thesis by (rule conjI)
qed

subsection \<open>Corners and sides\<close>

lemma update_fresh: "k \<notin> fst ` set al \<Longrightarrow> AList.update k v al = al @ [(k, v)]"
  by (induction al) auto

lemma map_entry_fresh_last:
  "k \<notin> fst ` set al \<Longrightarrow> AList.map_entry k f (al @ [(k, v)]) = al @ [(k, f v)]"
  by (induction al) auto

lemma length_vertexOffsets: "length vertexOffsets = 6"
  by (simp add: vertexOffsets_def)

lemma length_cornerKeys: "length (cornerKeys k) = 6"
  by (simp add: cornerKeys_def length_vertexOffsets)

lemma length_sideKeys: "length (sideKeys k) = 6"
  by (simp add: sideKeys_def)

lemma getVertexCoords_cornerKeys:
  "i < 6 \<Longrightarrow> getVertexCoords (fst k) (snd k) i = Some (cornerKeys k ! i)"
  by (simp add: getVertexCoords_def cornerKeys_def length_vertexOffsets split: prod.splits)

lemma getEdgeCoords_sideKeys: "i < 6 \<Longrightarrow> getEdgeCoords (fst k) (snd k) i = sideKeys k ! i"
  by (simp add: sideKeys_def)

lemma distinct_cornerKeys: "distinct (cornerKeys k)"
  by (simp add: cornerKeys_def vertexOffsets_def)

lemma distinct_sideKeys: "distinct (sideKeys k)"
  by (simp add: sideKeys_def getEdgeCoords_def distinct_map inj_on_def)

lemma cornerKeys_disjoint: "c \<in> set (cornerKeys k) \<Longrightarrow> c \<in> set (cornerKeys k') \<Longrightarrow> k = k'"
  by (cases k, cases k') (auto simp: cornerKeys_def vertexOffsets_def)

lemma sideKeys_disjoint: "c \<in> set (sideKeys k) \<Longrightarrow> c \<in> set (sideKeys k') \<Longrightarrow> k = k'"
  by (cases k, cases k') (auto simp: sideKeys_def getEdgeCoords_def)

lemma createVertexFor_vertices:
  assumes "i < 6" "cornerKeys k ! i \<notin> fst ` set (vertices b)"
  shows "vertices (createVertexFor k i b)
           = vertices b @ [(cornerKeys k ! i, newVertex\<lparr>vertex_hexes := [k]\<rparr>)]"
  using assms
  by (simp add: createVertexFor_def getVertexCoords_cornerKeys Let_def map_of_eq_None_iff
        update_fresh map_entry_fresh_last newVertex_def)

lemma createVertexFor_edges: "edges (createVertexFor k i b) = edges b"
  by (simp add: createVertexFor_def Let_def split: option.splits)

lemma createEdgeFor_edges:
  assumes "i < 6" "sideKeys k ! i \<notin> fst ` set (edges b)"
  shows "edges (createEdgeFor k i b) = edges b @ [(sideKeys k ! i, newEdge\<lparr>edge_hexes := [k]\<rparr>)]"
  using assms
  by (simp add: createEdgeFor_def getEdgeCoords_sideKeys Let_def map_of_eq_None_iff
        update_fresh map_entry_fresh_last newEdge_def)

lemma createEdgeFor_vertices: "vertices (createEdgeFor k i b) = vertices b"
  by (simp add: createEdgeFor_def Let_def)

lemma fold_createVertexFor:
  "set ds \<subseteq> {0..<6} \<Longrightarrow> distinct ds
   \<Longrightarrow> \<forall>i \<in> set ds. cornerKeys k ! i \<notin> fst ` set (vertices b)
   \<Longrightarrow> vertices (fold (createVertexFor k) ds b)
         = vertices b @ map (\<lambda>i. (cornerKeys k ! i, newVertex\<lparr>vertex_hexes := [k]\<rparr>)) ds"
proof (induction ds arbitrary: b)
  case Nil
  then show ?case by simp
next
  case (Cons i ds)
  from Cons.prems have i: "i < 6" "cornerKeys k ! i \<notin> fst ` set (vertices b)" by auto
  note v = createVertexFor_vertices[OF i]
  have "\<forall>j \<in> set ds. cornerKeys k ! j \<notin> fst ` set (vertices (createVertexFor k i b))"
  proof
    fix j assume j: "j \<in> set ds"
    with Cons.prems have "j < 6" "j \<noteq> i" "cornerKeys k ! j \<notin> fst ` set (vertices b)" by auto
    moreover from this i(1) have "cornerKeys k ! j \<noteq> cornerKeys k ! i"
      using distinct_cornerKeys[of k] by (simp add: nth_eq_iff_index_eq length_cornerKeys)
    ultimately show "cornerKeys k ! j \<notin> fst ` set (vertices (createVertexFor k i b))"
      by (simp add: v)
  qed
  with Cons.prems have "vertices (fold (createVertexFor k) ds (createVertexFor k i b))
      = vertices (createVertexFor k i b)
        @ map (\<lambda>i. (cornerKeys k ! i, newVertex\<lparr>vertex_hexes := [k]\<rparr>)) ds"
    by (intro Cons.IH) auto
  then show ?case by (simp add: v)
qed

lemma fold_createEdgeFor:
  "set ds \<subseteq> {0..<6} \<Longrightarrow> distinct ds
   \<Longrightarrow> \<forall>i \<in> set ds. sideKeys k ! i \<notin> fst ` set (edges b)
   \<Longrightarrow> edges (fold (createEdgeFor k) ds b)
         = edges b @ map (\<lambda>i. (sideKeys k ! i, newEdge\<lparr>edge_hexes := [k]\<rparr>)) ds"
proof (induction ds arbitrary: b)
  case Nil
  then show ?case by simp
next
  case (Cons i ds)
  from Cons.prems have i: "i < 6" "sideKeys k ! i \<notin> fst ` set (edges b)" by auto
  note v = createEdgeFor_edges[OF i]
  have "\<forall>j \<in> set ds. sideKeys k ! j \<notin> fst ` set (edges (createEdgeFor k i b))"
  proof
    fix j assume j: "j \<in> set ds"
    with Cons.prems have "j < 6" "j \<noteq> i" "sideKeys k ! j \<notin> fst ` set (edges b)" by auto
    moreover from this i(1) have "sideKeys k ! j \<noteq> sideKeys k ! i"
      using distinct_sideKeys[of k] by (simp add: nth_eq_iff_index_eq length_sideKeys)
    ultimately show "sideKeys k ! j \<notin> fst ` set (edges (createEdgeFor k i b))"
      by (simp add: v)
  qed
  with Cons.prems have "edges (fold (createEdgeFor k) ds (createEdgeFor k i b))
      = edges (createEdgeFor k i b)
        @ map (\<lambda>i. (sideKeys k ! i, newEdge\<lparr>edge_hexes := [k]\<rparr>)) ds"
    by (intro Cons.IH) auto
  then show ?case by (simp add: v)
qed

lemma map_nth_keys: "length xs = 6 \<Longrightarrow> map (\<lambda>i. (xs ! i, x)) [0..<6] = map (\<lambda>c. (c, x)) xs"
  by (rule nth_equalityI) simp_all

lemma createVerticesForHex_vertices:
  assumes "set (cornerKeys k) \<inter> fst ` set (vertices b) = {}"
  shows "vertices (createVerticesForHex k b)
           = vertices b @ map (\<lambda>c. (c, newVertex\<lparr>vertex_hexes := [k]\<rparr>)) (cornerKeys k)"
    "edges (createVerticesForHex k b) = edges b"
proof -
  have "\<forall>i \<in> set [0..<6]. cornerKeys k ! i \<notin> fst ` set (vertices b)"
  proof
    fix i :: nat assume "i \<in> set [0..<6]"
    then have "cornerKeys k ! i \<in> set (cornerKeys k)" by (simp add: length_cornerKeys)
    with assms show "cornerKeys k ! i \<notin> fst ` set (vertices b)" by blast
  qed
  then have "vertices (fold (createVertexFor k) [0..<6] b)
         = vertices b @ map (\<lambda>i. (cornerKeys k ! i, newVertex\<lparr>vertex_hexes := [k]\<rparr>)) [0..<6]"
    by (intro fold_createVertexFor) auto
  then show "vertices (createVerticesForHex k b)
           = vertices b @ map (\<lambda>c. (c, newVertex\<lparr>vertex_hexes := [k]\<rparr>)) (cornerKeys k)"
    by (simp only: createVerticesForHex_def map_nth_keys[OF length_cornerKeys])
  show "edges (createVerticesForHex k b) = edges b"
    unfolding createVerticesForHex_def by (rule fold_preserves) (rule createVertexFor_edges)
qed

lemma createEdgesForHex_edges:
  assumes "set (sideKeys k) \<inter> fst ` set (edges b) = {}"
  shows "edges (createEdgesForHex k b)
           = edges b @ map (\<lambda>c. (c, newEdge\<lparr>edge_hexes := [k]\<rparr>)) (sideKeys k)"
    "vertices (createEdgesForHex k b) = vertices b"
proof -
  have "\<forall>i \<in> set [0..<6]. sideKeys k ! i \<notin> fst ` set (edges b)"
  proof
    fix i :: nat assume "i \<in> set [0..<6]"
    then have "sideKeys k ! i \<in> set (sideKeys k)" by (simp add: length_sideKeys)
    with assms show "sideKeys k ! i \<notin> fst ` set (edges b)" by blast
  qed
  then have "edges (fold (createEdgeFor k) [0..<6] b)
         = edges b @ map (\<lambda>i. (sideKeys k ! i, newEdge\<lparr>edge_hexes := [k]\<rparr>)) [0..<6]"
    by (intro fold_createEdgeFor) auto
  then show "edges (createEdgesForHex k b)
           = edges b @ map (\<lambda>c. (c, newEdge\<lparr>edge_hexes := [k]\<rparr>)) (sideKeys k)"
    by (simp only: createEdgesForHex_def map_nth_keys[OF length_sideKeys])
  show "vertices (createEdgesForHex k b) = vertices b"
    unfolding createEdgesForHex_def by (rule fold_preserves) (rule createEdgeFor_vertices)
qed

lemma firstPass_graph:
  "distinct ks
   \<Longrightarrow> \<forall>k \<in> set ks. set (cornerKeys k) \<inter> fst ` set (vertices b) = {}
                   \<and> set (sideKeys k) \<inter> fst ` set (edges b) = {}
   \<Longrightarrow> vertices (fold (\<lambda>k b. createEdgesForHex k (createVerticesForHex k b)) ks b)
         = vertices b
           @ concat (map (\<lambda>k. map (\<lambda>c. (c, newVertex\<lparr>vertex_hexes := [k]\<rparr>)) (cornerKeys k)) ks)
     \<and> edges (fold (\<lambda>k b. createEdgesForHex k (createVerticesForHex k b)) ks b)
         = edges b
           @ concat (map (\<lambda>k. map (\<lambda>c. (c, newEdge\<lparr>edge_hexes := [k]\<rparr>)) (sideKeys k)) ks)"
proof (induction ks arbitrary: b)
  case Nil
  then show ?case by simp
next
  case (Cons k ks)
  let ?b1 = "createEdgesForHex k (createVerticesForHex k b)"
  from Cons.prems(2) have f: "set (cornerKeys k) \<inter> fst ` set (vertices b) = {}"
    "set (sideKeys k) \<inter> fst ` set (edges b) = {}"
    by simp_all
  note cv = createVerticesForHex_vertices[OF f(1)]
  have f2: "set (sideKeys k) \<inter> fst ` set (edges (createVerticesForHex k b)) = {}"
    using f(2) by (simp add: cv(2))
  note ce = createEdgesForHex_edges[OF f2]
  have v1: "vertices ?b1 = vertices b @ map (\<lambda>c. (c, newVertex\<lparr>vertex_hexes := [k]\<rparr>)) (cornerKeys k)"
    by (simp add: ce(2) cv(1))
  have e1: "edges ?b1 = edges b @ map (\<lambda>c. (c, newEdge\<lparr>edge_hexes := [k]\<rparr>)) (sideKeys k)"
    by (simp add: ce(1) cv(2))
  have q: "\<forall>k' \<in> set ks. set (cornerKeys k') \<inter> fst ` set (vertices ?b1) = {}
                   \<and> set (sideKeys k') \<inter> fst ` set (edges ?b1) = {}"
  proof
    fix k' assume k': "k' \<in> set ks"
    with Cons.prems(1) have ne: "k' \<noteq> k" by auto
    from k' Cons.prems(2) have o: "set (cornerKeys k') \<inter> fst ` set (vertices b) = {}"
        "set (sideKeys k') \<inter> fst ` set (edges b) = {}"
      by simp_all
    have "set (cornerKeys k') \<inter> set (cornerKeys k) = {}"
    proof (rule ccontr)
      assume "set (cornerKeys k') \<inter> set (cornerKeys k) \<noteq> {}"
      then obtain c where "c \<in> set (cornerKeys k')" "c \<in> set (cornerKeys k)" by blast
      from cornerKeys_disjoint[OF this] ne show False by simp
    qed
    moreover have "set (sideKeys k') \<inter> set (sideKeys k) = {}"
    proof (rule ccontr)
      assume "set (sideKeys k') \<inter> set (sideKeys k) \<noteq> {}"
      then obtain c where "c \<in> set (sideKeys k')" "c \<in> set (sideKeys k)" by blast
      from sideKeys_disjoint[OF this] ne show False by simp
    qed
    moreover have "fst ` set (vertices ?b1) = fst ` set (vertices b) \<union> set (cornerKeys k)"
      "fst ` set (edges ?b1) = fst ` set (edges b) \<union> set (sideKeys k)"
      unfolding v1 e1 by (simp_all add: image_Un image_image)
    ultimately show "set (cornerKeys k') \<inter> fst ` set (vertices ?b1) = {}
                   \<and> set (sideKeys k') \<inter> fst ` set (edges ?b1) = {}"
      using o by (simp add: Int_Un_distrib)
  qed
  from Cons.prems(1) have d: "distinct ks" by simp
  note ih = Cons.IH[OF d q]
  show ?case unfolding fold_simps list.map concat.simps append_assoc[symmetric]
    using ih unfolding v1 e1 by simp
qed

subsection \<open>Linking leaves the hexes of a corner or side as they are\<close>

lemma vertexCore_upd [simp]:
  "vertexCore (v\<lparr>vertex_edges := x\<rparr>) = vertexCore v"
  by (simp add: vertexCore_def)

lemma edgeCore_upd [simp]:
  "edgeCore (e\<lparr>edge_vertices := x\<rparr>) = edgeCore e"
  by (simp add: edgeCore_def)

lemma linkVertexEdge_cores:
  "vertexCoreList (linkVertexEdge vk ek b) = vertexCoreList b"
  "edgeCoreList (linkVertexEdge vk ek b) = edgeCoreList b"
  by (simp_all add: linkVertexEdge_def Let_def vertexCoreList_def edgeCoreList_def map_entry_proj
        split: option.splits)

lemma linkHexRelationships_cores:
  "(vertexCoreList (linkHexRelationships hk b), edgeCoreList (linkHexRelationships hk b))
     = (vertexCoreList b, edgeCoreList b)"
proof -
  let ?V = "\<lambda>b. (vertexCoreList b, edgeCoreList b)"
  have ln: "\<And>off b. ?V (linkNeighbor hk off b) = ?V b"
    by (simp add: linkNeighbor_def vertexCoreList_def edgeCoreList_def split: option.splits)
  have lva: "\<And>iv b. ?V (linkVertexAt hk iv b) = ?V b"
    unfolding linkVertexAt_def
    by (rule fold_preserves) (simp add: linkVertexEdge_cores split: option.splits)
  have 1: "?V (fold (linkNeighbor hk) neighborOffsets b) = ?V b"
    by (rule fold_preserves) (rule ln)
  have 2: "\<And>xs c. ?V (fold (linkVertexAt hk) xs c) = ?V c"
    by (rule fold_preserves) (rule lva)
  show ?thesis
    using 1 2 by (simp add: linkHexRelationships_def Let_def split: option.splits)
qed

lemma createHexes_graph:
  "vertices (createHexes ts b) = vertices b \<and> edges (createHexes ts b) = edges b"
proof -
  have "\<And>xs. vertices (fold (\<lambda>(i, k). addHex k (newHex (terrainAt ts i))) xs b) = vertices b
    \<and> edges (fold (\<lambda>(i, k). addHex k (newHex (terrainAt ts i))) xs b) = edges b"
  proof -
    fix xs show "vertices (fold (\<lambda>(i, k). addHex k (newHex (terrainAt ts i))) xs b) = vertices b
    \<and> edges (fold (\<lambda>(i, k). addHex k (newHex (terrainAt ts i))) xs b) = edges b"
      by (induction xs arbitrary: b) (auto simp: addHex_def)
  qed
  then show ?thesis by (simp add: createHexes_def)
qed

lemma buildRelationships_graph:
  assumes "distinct (map fst (hexes b))" "vertices b = []" "edges b = []"
  shows "vertexCoreList (buildRelationships b)
           = concat (map (\<lambda>k. map (\<lambda>c. (c, None, [k], [])) (cornerKeys k)) (map fst (hexes b)))"
    "edgeCoreList (buildRelationships b)
           = concat (map (\<lambda>k. map (\<lambda>c. (c, None, [k], [])) (sideKeys k)) (map fst (hexes b)))"
proof -
  let ?ks = "map fst (hexes b)"
  define b1 where "b1 = fold (\<lambda>k b. createEdgesForHex k (createVerticesForHex k b)) ?ks b"
  have "(vertexCoreList (fold linkHexRelationships ?ks b1), edgeCoreList (fold linkHexRelationships ?ks b1))
      = (vertexCoreList b1, edgeCoreList b1)"
    by (rule fold_preserves) (rule linkHexRelationships_cores)
  then have br: "vertexCoreList (buildRelationships b) = vertexCoreList b1"
    "edgeCoreList (buildRelationships b) = edgeCoreList b1"
    by (simp_all add: buildRelationships_def Let_def b1_def)
  have "\<forall>k \<in> set ?ks. set (cornerKeys k) \<inter> fst ` set (vertices b) = {}
                   \<and> set (sideKeys k) \<inter> fst ` set (edges b) = {}"
    by (simp add: assms)
  from firstPass_graph[OF assms(1) this]
  have v: "vertices b1
      = concat (map (\<lambda>k. map (\<lambda>c. (c, newVertex\<lparr>vertex_hexes := [k]\<rparr>)) (cornerKeys k)) ?ks)"
    and e: "edges b1
      = concat (map (\<lambda>k. map (\<lambda>c. (c, newEdge\<lparr>edge_hexes := [k]\<rparr>)) (sideKeys k)) ?ks)"
    by (simp_all add: b1_def assms)
  have "vertexCoreList b1
           = concat (map (\<lambda>k. map (\<lambda>c. (c, None, [k], [])) (cornerKeys k)) ?ks)"
    by (simp add: vertexCoreList_def v map_concat comp_def vertexCore_def newVertex_def)
  then show "vertexCoreList (buildRelationships b)
           = concat (map (\<lambda>k. map (\<lambda>c. (c, None, [k], [])) (cornerKeys k)) ?ks)"
    by (simp only: br)
  have "edgeCoreList b1
           = concat (map (\<lambda>k. map (\<lambda>c. (c, None, [k], [])) (sideKeys k)) ?ks)"
    by (simp add: edgeCoreList_def e map_concat comp_def edgeCore_def newEdge_def)
  then show "edgeCoreList (buildRelationships b)
           = concat (map (\<lambda>k. map (\<lambda>c. (c, None, [k], [])) (sideKeys k)) ?ks)"
    by (simp only: br)
qed

lemma generated_graph:
  assumes "generateStandardBoard rs b0 = (B, rs', warned)"
  shows "vertexCoreList B = concat (map (\<lambda>k. map (\<lambda>c. (c, None, [k], [])) (cornerKeys k)) hexLayout)"
    "edgeCoreList B = concat (map (\<lambda>k. map (\<lambda>c. (c, None, [k], [])) (sideKeys k)) hexLayout)"
proof -
  from generated_facts(10)[OF assms] obtain ts where ts: "length ts = 19"
    "vertices B = vertices (buildRelationships (createHexes ts (clear b0)))"
    "edges B = edges (buildRelationships (createHexes ts (clear b0)))"
    by blast
  let ?b = "createHexes ts (clear b0)"
  have k: "map fst (hexes ?b) = hexLayout"
    using built_terrainList(2)[OF ts(1), of b0] by (simp add: keysOf_terrainList[symmetric] keysOf_def)
  have g: "vertices ?b = []" "edges ?b = []"
    using createHexes_graph[of ts "clear b0"] by (simp_all add: clear_def)
  have d: "distinct (map fst (hexes ?b))" by (simp add: k distinct_hexLayout)
  note br = buildRelationships_graph[OF d g, unfolded k]
  show "vertexCoreList B = concat (map (\<lambda>k. map (\<lambda>c. (c, None, [k], [])) (cornerKeys k)) hexLayout)"
    using br(1) by (simp add: vertexCoreList_def ts(2))
  show "edgeCoreList B = concat (map (\<lambda>k. map (\<lambda>c. (c, None, [k], [])) (sideKeys k)) hexLayout)"
    using br(2) by (simp add: edgeCoreList_def ts(3))
qed

lemma vertex_in_coreList:
  "map_of (vertices b) c = Some v \<Longrightarrow> (c, vertexCore v) \<in> set (vertexCoreList b)"
  by (force simp: vertexCoreList_def dest: map_of_SomeD)

lemma edge_in_coreList:
  "map_of (edges b) c = Some e \<Longrightarrow> (c, edgeCore e) \<in> set (edgeCoreList b)"
  by (force simp: edgeCoreList_def dest: map_of_SomeD)

lemma vertex_keys_coreList: "fst ` set (vertices b) = fst ` set (vertexCoreList b)"
  by (simp add: vertexCoreList_def image_image)

lemma edge_keys_coreList: "fst ` set (edges b) = fst ` set (edgeCoreList b)"
  by (simp add: edgeCoreList_def image_image)

subsection \<open>Claims about corners and sides\<close>

lemma generated_vertex:
  assumes "generateStandardBoard rs b0 = (B, rs', warned)" "map_of (vertices B) c = Some v"
  shows "\<exists>k \<in> set hexLayout. c \<in> set (cornerKeys k) \<and> vertexCore v = (None, [k], [])"
  using vertex_in_coreList[OF assms(2)] unfolding generated_graph(1)[OF assms(1)] by auto

lemma generated_edge:
  assumes "generateStandardBoard rs b0 = (B, rs', warned)" "map_of (edges B) c = Some e"
  shows "\<exists>k \<in> set hexLayout. c \<in> set (sideKeys k) \<and> edgeCore e = (None, [k], [])"
  using edge_in_coreList[OF assms(2)] unfolding generated_graph(2)[OF assms(1)] by auto

lemma generated_vertex_keys:
  assumes "generateStandardBoard rs b0 = (B, rs', warned)"
  shows "fst ` set (vertices B) = (\<Union>k \<in> set hexLayout. set (cornerKeys k))"
    "fst ` set (edges B) = (\<Union>k \<in> set hexLayout. set (sideKeys k))"
  unfolding vertex_keys_coreList edge_keys_coreList generated_graph[OF assms]
  by (auto simp: image_iff)

lemma centre_in_layout: "(0, 0) \<in> set hexLayout"
  by (simp add: hexLayout_def)

lemma in_keys_map_of: "c \<in> fst ` set al \<Longrightarrow> \<exists>v. map_of al c = Some v"
  by (cases "map_of al c") (simp_all add: map_of_eq_None_iff)

text \<open>
  Claim C1. On every generated board no corner and no side is shared between hexes:
  there are 114 vertices and 114 edges (six of each per hex), every vertex holds exactly
  one hex, and every edge holds exactly one hex. This includes the six corners and the
  six sides of the centre hex, which are interior.
\<close>

theorem corners_and_sides_not_shared:
  assumes "generateStandardBoard rs b0 = (B, rs', warned)"
  shows "length (vertices B) = 114 \<and> length (edges B) = 114
     \<and> (\<forall>c v. map_of (vertices B) c = Some v
           \<longrightarrow> (\<exists>k \<in> set hexLayout. c \<in> set (cornerKeys k) \<and> vertex_hexes v = [k]))
     \<and> (\<forall>c e. map_of (edges B) c = Some e
           \<longrightarrow> (\<exists>k \<in> set hexLayout. c \<in> set (sideKeys k) \<and> edge_hexes e = [k]))
     \<and> (\<forall>c \<in> set (cornerKeys (0, 0)).
           \<exists>v. map_of (vertices B) c = Some v \<and> vertex_hexes v = [(0, 0)])
     \<and> (\<forall>c \<in> set (sideKeys (0, 0)).
           \<exists>e. map_of (edges B) c = Some e \<and> edge_hexes e = [(0, 0)])"
proof -
  note g = generated_graph[OF assms]
  have "length (vertexCoreList B) = 114"
    unfolding g(1) by (simp add: length_concat comp_def length_cornerKeys sum_list_triv length_hexLayout)
  then have lv: "length (vertices B) = 114" by (simp add: vertexCoreList_def)
  have "length (edgeCoreList B) = 114"
    unfolding g(2) by (simp add: length_concat comp_def length_sideKeys sum_list_triv length_hexLayout)
  then have le: "length (edges B) = 114" by (simp add: edgeCoreList_def)
  have av: "\<forall>c v. map_of (vertices B) c = Some v
           \<longrightarrow> (\<exists>k \<in> set hexLayout. c \<in> set (cornerKeys k) \<and> vertex_hexes v = [k])"
    using generated_vertex[OF assms] by (fastforce simp: vertexCore_def)
  have ae: "\<forall>c e. map_of (edges B) c = Some e
           \<longrightarrow> (\<exists>k \<in> set hexLayout. c \<in> set (sideKeys k) \<and> edge_hexes e = [k])"
    using generated_edge[OF assms] by (fastforce simp: edgeCore_def)
  have cv: "\<forall>c \<in> set (cornerKeys (0, 0)).
           \<exists>v. map_of (vertices B) c = Some v \<and> vertex_hexes v = [(0, 0)]"
  proof
    fix c assume c: "c \<in> set (cornerKeys (0, 0))"
    have "c \<in> fst ` set (vertices B)"
      unfolding generated_vertex_keys(1)[OF assms] by (rule UN_I[where B = "\<lambda>k. set (cornerKeys k)", OF centre_in_layout c])
    from in_keys_map_of[OF this] obtain v where v: "map_of (vertices B) c = Some v" ..
    from av[rule_format, OF v]
    have "\<exists>k \<in> set hexLayout. c \<in> set (cornerKeys k) \<and> vertex_hexes v = [k]" .
    then obtain k where "c \<in> set (cornerKeys k)" "vertex_hexes v = [k]" by auto
    with c cornerKeys_disjoint[of c k "(0, 0)"] have "vertex_hexes v = [(0, 0)]" by simp
    with v show "\<exists>v. map_of (vertices B) c = Some v \<and> vertex_hexes v = [(0, 0)]" by blast
  qed
  have ce: "\<forall>c \<in> set (sideKeys (0, 0)).
           \<exists>e. map_of (edges B) c = Some e \<and> edge_hexes e = [(0, 0)]"
  proof
    fix c assume c: "c \<in> set (sideKeys (0, 0))"
    have "c \<in> fst ` set (edges B)"
      unfolding generated_vertex_keys(2)[OF assms] by (rule UN_I[where B = "\<lambda>k. set (sideKeys k)", OF centre_in_layout c])
    from in_keys_map_of[OF this] obtain e where e: "map_of (edges B) c = Some e" ..
    from ae[rule_format, OF e]
    have "\<exists>k \<in> set hexLayout. c \<in> set (sideKeys k) \<and> edge_hexes e = [k]" .
    then obtain k where "c \<in> set (sideKeys k)" "edge_hexes e = [k]" by auto
    with c sideKeys_disjoint[of c k "(0, 0)"] have "edge_hexes e = [(0, 0)]" by simp
    with e show "\<exists>e. map_of (edges B) c = Some e \<and> edge_hexes e = [(0, 0)]" by blast
  qed
  from lv le av ae cv ce show ?thesis by (intro conjI)
qed

theorem corners_and_sides_not_shared_witness:
  "length (vertices (fst (generateStandardBoard [] newBoard))) = 114
   \<and> (\<exists>v. map_of (vertices (fst (generateStandardBoard [] newBoard))) (1, -1, 4) = Some v
          \<and> vertex_hexes v = [(0, 0)])
   \<and> (\<exists>e. map_of (edges (fst (generateStandardBoard [] newBoard))) (0, 0, 0) = Some e
          \<and> edge_hexes e = [(0, 0)])"
proof -
  note t = corners_and_sides_not_shared[OF generateStandardBoard_result, of "[]" newBoard]
  let ?B = "fst (generateStandardBoard [] newBoard)"
  have 1: "length (vertices ?B) = 114" by (rule conjunct1[OF t])
  have "\<forall>c \<in> set (cornerKeys (0, 0)).
           \<exists>v. map_of (vertices ?B) c = Some v \<and> vertex_hexes v = [(0, 0)]"
    by (rule conjunct1[OF conjunct2[OF conjunct2[OF conjunct2[OF conjunct2[OF t]]]]])
  moreover have "(1, -1, 4) \<in> set (cornerKeys (0, 0))"
    by (simp add: cornerKeys_def vertexOffsets_def)
  ultimately have 2: "\<exists>v. map_of (vertices ?B) (1, -1, 4) = Some v \<and> vertex_hexes v = [(0, 0)]"
    by (rule bspec)
  have "\<forall>c \<in> set (sideKeys (0, 0)).
           \<exists>e. map_of (edges ?B) c = Some e \<and> edge_hexes e = [(0, 0)]"
    by (rule conjunct2[OF conjunct2[OF conjunct2[OF conjunct2[OF conjunct2[OF t]]]]])
  moreover have "(0, 0, 0) \<in> set (sideKeys (0, 0))"
    by (simp add: sideKeys_def getEdgeCoords_def)
  ultimately have 3: "\<exists>e. map_of (edges ?B) (0, 0, 0) = Some e \<and> edge_hexes e = [(0, 0)]"
    by (rule bspec)
  from 1 2 3 show ?thesis by (intro conjI)
qed

lemma place_on_free_vertex:
  assumes "map_of (vertices b) c = Some v" "building v = None" "adjacentVertices v = []"
  shows "vertex_placeSettlement s c b
           = Some (s\<lparr>placedAt := Some c\<rparr>,
                   b\<lparr>vertices := AList.map_entry c (\<lambda>v. v\<lparr>building := Some (s\<lparr>placedAt := Some c\<rparr>)\<rparr>)
                                   (vertices b)\<rparr>)"
  using assms by (simp add: vertex_placeSettlement_def canPlaceSettlement_def Let_def)

text \<open>
  Claim C2. On every generated board every vertex has an empty \<^verbatim>\<open>adjacentVertices\<close>
  list, so \<^verbatim>\<open>canPlaceSettlement\<close> only asks whether the vertex itself is free. After a
  settlement is placed on any vertex \<open>c\<close>, every other vertex \<open>d\<close> still accepts a
  settlement: \<^verbatim>\<open>canPlaceSettlement\<close> is true, \<^verbatim>\<open>Vertex.placeSettlement\<close> succeeds, and
  \<^verbatim>\<open>Player.buildSettlement\<close> succeeds for a player who can pay. This includes the
  corners of the centre hex, which follow each other around it.
\<close>

theorem distance_rule_not_enforced:
  assumes "generateStandardBoard rs b0 = (B, rs', warned)"
  shows "(\<forall>c v. map_of (vertices B) c = Some v \<longrightarrow> building v = None \<and> adjacentVertices v = [])
     \<and> set (cornerKeys (0, 0)) \<subseteq> fst ` set (vertices B)
     \<and> (\<forall>c d s. c \<in> fst ` set (vertices B) \<and> d \<in> fst ` set (vertices B) \<and> c \<noteq> d \<longrightarrow>
          (\<exists>s1 B1 vd. vertex_placeSettlement s c B = Some (s1, B1) \<and> hasBuilding B1 c
              \<and> map_of (vertices B1) d = Some vd \<and> canPlaceSettlement B1 vd
              \<and> (\<forall>s'. \<exists>s2 B2. vertex_placeSettlement s' d B1 = Some (s2, B2)
                       \<and> hasBuilding B2 c \<and> hasBuilding B2 d)
              \<and> (\<forall>p fresh. canAfford ''settlement'' p \<and> 0 < settlementsRemaining p
                    \<longrightarrow> fst (buildSettlement d fresh p B1) \<noteq> None)))"
proof -
  have free: "\<forall>c v. map_of (vertices B) c = Some v \<longrightarrow> building v = None \<and> adjacentVertices v = []"
    using generated_vertex[OF assms] by (fastforce simp: vertexCore_def)
  have centre: "set (cornerKeys (0, 0)) \<subseteq> fst ` set (vertices B)"
    unfolding generated_vertex_keys(1)[OF assms]
    by (rule UN_upper[where B = "\<lambda>k. set (cornerKeys k)", OF centre_in_layout])
  have two: "\<forall>c d s. c \<in> fst ` set (vertices B) \<and> d \<in> fst ` set (vertices B) \<and> c \<noteq> d \<longrightarrow>
          (\<exists>s1 B1 vd. vertex_placeSettlement s c B = Some (s1, B1) \<and> hasBuilding B1 c
              \<and> map_of (vertices B1) d = Some vd \<and> canPlaceSettlement B1 vd
              \<and> (\<forall>s'. \<exists>s2 B2. vertex_placeSettlement s' d B1 = Some (s2, B2)
                       \<and> hasBuilding B2 c \<and> hasBuilding B2 d)
              \<and> (\<forall>p fresh. canAfford ''settlement'' p \<and> 0 < settlementsRemaining p
                    \<longrightarrow> fst (buildSettlement d fresh p B1) \<noteq> None))"
  proof (intro allI impI)
    fix c d :: coord and s :: piece
    assume a: "c \<in> fst ` set (vertices B) \<and> d \<in> fst ` set (vertices B) \<and> c \<noteq> d"
    then have cin: "c \<in> fst ` set (vertices B)" and din: "d \<in> fst ` set (vertices B)"
      and ne: "c \<noteq> d"
      by simp_all
    from in_keys_map_of[OF cin] obtain vc where vc: "map_of (vertices B) c = Some vc" ..
    from in_keys_map_of[OF din] obtain vd where vd: "map_of (vertices B) d = Some vd" ..
    from free[rule_format, OF vc] have fc: "building vc = None" "adjacentVertices vc = []"
      by simp_all
    from free[rule_format, OF vd] have fd: "building vd = None" "adjacentVertices vd = []"
      by simp_all
    let ?s1 = "s\<lparr>placedAt := Some c\<rparr>"
    let ?B1 = "B\<lparr>vertices := AList.map_entry c (\<lambda>v. v\<lparr>building := Some ?s1\<rparr>) (vertices B)\<rparr>"
    have p1: "vertex_placeSettlement s c B = Some (?s1, ?B1)"
      by (rule place_on_free_vertex[OF vc fc])
    have c1: "map_of (vertices ?B1) c = Some (vc\<lparr>building := Some ?s1\<rparr>)"
      by (simp add: AList.map_of_map_entry vc)
    then have h1: "hasBuilding ?B1 c" by (simp add: hasBuilding_def)
    have d1: "map_of (vertices ?B1) d = Some vd"
      using ne by (simp add: AList.map_of_map_entry vd)
    have cp: "canPlaceSettlement ?B1 vd" by (simp add: canPlaceSettlement_def fd)
    have p2: "\<forall>s'. \<exists>s2 B2. vertex_placeSettlement s' d ?B1 = Some (s2, B2)
                       \<and> hasBuilding B2 c \<and> hasBuilding B2 d"
    proof
      fix s' :: piece
      let ?s2 = "s'\<lparr>placedAt := Some d\<rparr>"
      let ?B2 = "?B1\<lparr>vertices := AList.map_entry d (\<lambda>v. v\<lparr>building := Some ?s2\<rparr>) (vertices ?B1)\<rparr>"
      have "vertex_placeSettlement s' d ?B1 = Some (?s2, ?B2)"
        by (rule place_on_free_vertex[OF d1 fd])
      moreover have "hasBuilding ?B2 c"
        using ne c1 by (simp add: hasBuilding_def AList.map_of_map_entry)
      moreover have "hasBuilding ?B2 d"
        using d1 by (simp add: hasBuilding_def AList.map_of_map_entry)
      ultimately show "\<exists>s2 B2. vertex_placeSettlement s' d ?B1 = Some (s2, B2)
                       \<and> hasBuilding B2 c \<and> hasBuilding B2 d"
        by (intro exI conjI)
    qed
    have p3: "\<forall>p fresh. canAfford ''settlement'' p \<and> 0 < settlementsRemaining p
                    \<longrightarrow> fst (buildSettlement d fresh p ?B1) \<noteq> None"
    proof (intro allI impI)
      fix p :: player and fresh :: nat
      assume "canAfford ''settlement'' p \<and> 0 < settlementsRemaining p"
      then show "fst (buildSettlement d fresh p ?B1) \<noteq> None"
        using place_on_free_vertex[OF d1 fd, of "newPiece fresh (pid p) Settlement"]
        by (simp add: buildSettlement_def Let_def)
    qed
    from p1 h1 d1 cp p2 p3
    show "\<exists>s1 B1 vd. vertex_placeSettlement s c B = Some (s1, B1) \<and> hasBuilding B1 c
              \<and> map_of (vertices B1) d = Some vd \<and> canPlaceSettlement B1 vd
              \<and> (\<forall>s'. \<exists>s2 B2. vertex_placeSettlement s' d B1 = Some (s2, B2)
                       \<and> hasBuilding B2 c \<and> hasBuilding B2 d)
              \<and> (\<forall>p fresh. canAfford ''settlement'' p \<and> 0 < settlementsRemaining p
                    \<longrightarrow> fst (buildSettlement d fresh p B1) \<noteq> None)"
      by (intro exI conjI)
  qed
  from free centre two show ?thesis by (intro conjI)
qed

theorem distance_rule_not_enforced_witness:
  "\<exists>s1 B1 s2 B2.
      vertex_placeSettlement (newPiece 0 0 Settlement) (1, -1, 4)
          (fst (generateStandardBoard [] newBoard)) = Some (s1, B1)
      \<and> hasBuilding B1 (1, -1, 4)
      \<and> vertex_placeSettlement (newPiece 1 1 Settlement) (1, 0, 5) B1 = Some (s2, B2)
      \<and> hasBuilding B2 (1, -1, 4) \<and> hasBuilding B2 (1, 0, 5)"
proof -
  note t = distance_rule_not_enforced[OF generateStandardBoard_result, of "[]" newBoard]
  let ?B = "fst (generateStandardBoard [] newBoard)"
  have k: "set (cornerKeys (0, 0)) \<subseteq> fst ` set (vertices ?B)"
    by (rule conjunct1[OF conjunct2[OF t]])
  have "(1, -1, 4) \<in> set (cornerKeys (0, 0))" "(1, 0, 5) \<in> set (cornerKeys (0, 0))"
    by (simp_all add: cornerKeys_def vertexOffsets_def)
  with k have in1: "(1, -1, 4) \<in> fst ` set (vertices ?B)"
    and in2: "(1, 0, 5) \<in> fst ` set (vertices ?B)"
    by (simp_all add: subset_iff)
  have ne: "(1 :: int, -1 :: int, 4 :: nat) \<noteq> (1, 0, 5)" by simp
  note u = conjunct2[OF conjunct2[OF t], rule_format, of "(1, -1, 4)" "(1, 0, 5)" "newPiece 0 0 Settlement"]
  from u in1 in2 ne
  obtain s1 B1 where 1: "vertex_placeSettlement (newPiece 0 0 Settlement) (1, -1, 4) ?B = Some (s1, B1)"
    "hasBuilding B1 (1, -1, 4)"
    and 2: "\<forall>s'. \<exists>s2 B2. vertex_placeSettlement s' (1, 0, 5) B1 = Some (s2, B2)
                       \<and> hasBuilding B2 (1, -1, 4) \<and> hasBuilding B2 (1, 0, 5)"
    by auto
  from 2[rule_format, of "newPiece 1 1 Settlement"]
  obtain s2 B2 where "vertex_placeSettlement (newPiece 1 1 Settlement) (1, 0, 5) B1 = Some (s2, B2)"
    "hasBuilding B2 (1, -1, 4)" "hasBuilding B2 (1, 0, 5)"
    by auto
  with 1 show ?thesis by (intro exI conjI)
qed

subsection \<open>What a building collects\<close>

lemma corner_vertex:
  assumes "generateStandardBoard rs b0 = (B, rs', warned)" "k \<in> set hexLayout"
    "c \<in> set (cornerKeys k)"
  shows "\<exists>v. map_of (vertices B) c = Some v \<and> building v = None \<and> adjacentVertices v = []
           \<and> vertex_hexes v = [k]"
proof -
  have "c \<in> fst ` set (vertices B)"
    unfolding generated_vertex_keys(1)[OF assms(1)]
    by (rule UN_I[where B = "\<lambda>k. set (cornerKeys k)", OF assms(2,3)])
  from in_keys_map_of[OF this] obtain v where v: "map_of (vertices B) c = Some v" ..
  from generated_vertex[OF assms(1) v] obtain k' where k': "c \<in> set (cornerKeys k')"
    "vertexCore v = (None, [k'], [])"
    by auto
  from cornerKeys_disjoint[OF k'(1) assms(3)] have "k' = k" .
  with k'(2) v show ?thesis by (simp add: vertexCore_def)
qed

lemma collect_single_hex:
  assumes "hexesOfPiece b pc = [k]"
  shows "settlement_collectResources b roll pc = producedBy b roll k"
    "city_collectResources b roll pc = concat (map (\<lambda>r. [r, r]) (producedBy b roll k))"
  using assms by (simp_all add: settlement_collectResources_def city_collectResources_def)

lemma find_snoc:
  "find P (xs @ [y]) = (case find P xs of Some x \<Rightarrow> Some x | None \<Rightarrow> if P y then Some y else None)"
  by (induction xs) simp_all

lemma boardOfPiece_startGame:
  "piece_id pc < nextPieceId g \<Longrightarrow> boardOfPiece (snd (startGame rs g)) pc = boardOfPiece g pc"
  by (simp add: startGame_def boardOfPiece_def logEvent_def find_snoc split: option.splits)

text \<open>
  Claim C4 does not hold of the code. On every generated board the vertex under each of
  the six corner keys of a hex \<open>k\<close> lists that hex alone, so a building there collects
  from \<open>k\<close> only: a settlement placed on the corner gets what \<open>k\<close> produces on the
  roll, a city twice that, and after \<^verbatim>\<open>rollDice\<close> with a total other than 7 the counter
  of its owner for a resource grows by 1 when \<open>k\<close> is a producing tile for the total
  and that resource, and by 0 otherwise. No other tile that meets the corner
  contributes. On a total of 7 nothing is produced and every player with more than 7
  cards keeps exactly the total minus half of it, rounded down. A piece placed before
  \<^verbatim>\<open>startGame\<close> is called again keeps reading the board it was placed on.
\<close>

theorem buildings_collect_from_one_tile:
  assumes "generateStandardBoard rs b0 = (B, rs', warned)" "k \<in> set hexLayout"
    "c \<in> set (cornerKeys k)"
  shows "\<exists>s' B'. vertex_placeSettlement s c B = Some (s', B')
     \<and> (\<forall>pc roll. placedAt pc = Some c \<longrightarrow>
           hexesOfPiece B' pc = [k]
           \<and> settlement_collectResources B' roll pc = producedBy B' roll k
           \<and> city_collectResources B' roll pc = concat (map (\<lambda>r. [r, r]) (producedBy B' roll k)))
     \<and> placedAt s' = Some c
     \<and> (\<forall>V r. int (count_list (settlement_collectResources B' (Some V) s') r)
                 = (if tileProduces B' V k r then 1 else 0))
     \<and> (\<forall>g i die1 die2.
           gamePhase g = Playing \<and> \<not> hasRolledDice g \<and> getCurrentPlayer g = Some i \<longrightarrow>
           (\<exists>g'. rollDice die1 die2 g = Some (Inr (Some (die1, die2, die1 + die2), g'))
              \<and> length (players g') = length (players g)
              \<and> (\<forall>j < length (players g).
                   (die1 + die2 \<noteq> 7 \<and> boardOfPiece g s' = B'
                      \<and> settlements (players g ! j) = [s'] \<and> cities (players g ! j) = [] \<longrightarrow>
                      (\<forall>r. getResource (resources (players g' ! j)) r
                             = map_option
                                 (\<lambda>v. v + (if tileProduces B' (die1 + die2) k r then 1 else 0))
                                 (getResource (resources (players g ! j)) r)))
                 \<and> (die1 + die2 = 7 \<longrightarrow>
                      (if 7 < getTotalResources (players g ! j)
                       then getTotalResources (players g' ! j)
                              = getTotalResources (players g ! j)
                                - getTotalResources (players g ! j) div 2
                            \<and> noGain (players g ! j) (players g' ! j)
                       else players g' ! j = players g ! j)))))
     \<and> (\<forall>g rs2 pc. piece_id pc < nextPieceId g \<longrightarrow>
           boardOfPiece (snd (startGame rs2 g)) pc = boardOfPiece g pc)"
proof -
  from corner_vertex[OF assms] obtain v where v: "map_of (vertices B) c = Some v"
    "building v = None" "adjacentVertices v = []" "vertex_hexes v = [k]"
    by blast
  let ?s' = "s\<lparr>placedAt := Some c\<rparr>"
  let ?B' = "B\<lparr>vertices := AList.map_entry c (\<lambda>v. v\<lparr>building := Some ?s'\<rparr>) (vertices B)\<rparr>"
  have p: "vertex_placeSettlement s c B = Some (?s', ?B')"
    by (rule place_on_free_vertex[OF v(1-3)])
  have hx: "\<And>pc. placedAt pc = Some c \<Longrightarrow> hexesOfPiece ?B' pc = [k]"
    by (simp add: hexesOfPiece_def AList.map_of_map_entry v)
  have a: "\<forall>pc roll. placedAt pc = Some c \<longrightarrow>
           hexesOfPiece ?B' pc = [k]
           \<and> settlement_collectResources ?B' roll pc = producedBy ?B' roll k
           \<and> city_collectResources ?B' roll pc = concat (map (\<lambda>r. [r, r]) (producedBy ?B' roll k))"
    using hx collect_single_hex by blast
  have pl: "placedAt ?s' = Some c" by simp
  have sc: "\<And>roll. settlement_collectResources ?B' roll ?s' = producedBy ?B' roll k"
    by (rule collect_single_hex(1)[OF hx[OF pl]])
  have cnt: "\<forall>V r. int (count_list (settlement_collectResources ?B' (Some V) ?s') r)
                 = (if tileProduces ?B' V k r then 1 else 0)"
    by (simp only: sc count_producedBy) simp
  have roll: "\<forall>g i die1 die2.
           gamePhase g = Playing \<and> \<not> hasRolledDice g \<and> getCurrentPlayer g = Some i \<longrightarrow>
           (\<exists>g'. rollDice die1 die2 g = Some (Inr (Some (die1, die2, die1 + die2), g'))
              \<and> length (players g') = length (players g)
              \<and> (\<forall>j < length (players g).
                   (die1 + die2 \<noteq> 7 \<and> boardOfPiece g ?s' = ?B'
                      \<and> settlements (players g ! j) = [?s'] \<and> cities (players g ! j) = [] \<longrightarrow>
                      (\<forall>r. getResource (resources (players g' ! j)) r
                             = map_option
                                 (\<lambda>v. v + (if tileProduces ?B' (die1 + die2) k r then 1 else 0))
                                 (getResource (resources (players g ! j)) r)))
                 \<and> (die1 + die2 = 7 \<longrightarrow>
                      (if 7 < getTotalResources (players g ! j)
                       then getTotalResources (players g' ! j)
                              = getTotalResources (players g ! j)
                                - getTotalResources (players g ! j) div 2
                            \<and> noGain (players g ! j) (players g' ! j)
                       else players g' ! j = players g ! j))))"
  proof (intro allI impI)
    fix g :: game and i :: nat and die1 die2 :: int
    assume h: "gamePhase g = Playing \<and> \<not> hasRolledDice g \<and> getCurrentPlayer g = Some i"
    then have h1: "gamePhase g = Playing" and h2: "\<not> hasRolledDice g"
      and h3: "getCurrentPlayer g = Some i"
      by simp_all
    from rollDice_returns[OF h1 h2 h3, of die1 die2] obtain g' where
      r: "rollDice die1 die2 g = Some (Inr (Some (die1, die2, die1 + die2), g'))"
      and len: "length (players g') = length (players g)"
      and prod: "die1 + die2 \<noteq> 7 \<longrightarrow>
           players g' = map (\<lambda>p. fst (collectFromDiceRoll (boardOfPiece g) (Some (die1 + die2)) p))
                          (players g)"
      and seven: "die1 + die2 = 7 \<longrightarrow>
          (\<forall>j < length (players g).
             (if 7 < getTotalResources (players g ! j)
              then getTotalResources (players g' ! j)
                     = getTotalResources (players g ! j) - getTotalResources (players g ! j) div 2
                   \<and> noGain (players g ! j) (players g' ! j)
              else players g' ! j = players g ! j))"
      by blast
    have each: "\<forall>j < length (players g).
                   (die1 + die2 \<noteq> 7 \<and> boardOfPiece g ?s' = ?B'
                      \<and> settlements (players g ! j) = [?s'] \<and> cities (players g ! j) = [] \<longrightarrow>
                      (\<forall>r. getResource (resources (players g' ! j)) r
                             = map_option
                                 (\<lambda>v. v + (if tileProduces ?B' (die1 + die2) k r then 1 else 0))
                                 (getResource (resources (players g ! j)) r)))
                 \<and> (die1 + die2 = 7 \<longrightarrow>
                      (if 7 < getTotalResources (players g ! j)
                       then getTotalResources (players g' ! j)
                              = getTotalResources (players g ! j)
                                - getTotalResources (players g ! j) div 2
                            \<and> noGain (players g ! j) (players g' ! j)
                       else players g' ! j = players g ! j))"
    proof (intro allI impI conjI)
      fix j r
      assume j: "j < length (players g)"
        and c: "die1 + die2 \<noteq> 7 \<and> boardOfPiece g ?s' = ?B'
                      \<and> settlements (players g ! j) = [?s'] \<and> cities (players g ! j) = []"
      let ?p = "players g ! j"
      let ?V = "die1 + die2"
      from c prod j have pj: "players g' ! j = fst (collectFromDiceRoll (boardOfPiece g) (Some ?V) ?p)"
        by simp
      from c have col: "snd (collectFromDiceRoll (boardOfPiece g) (Some ?V) ?p)
          = producedBy ?B' (Some ?V) k"
        by (simp add: collectFromDiceRoll_def Let_def sc)
      show "getResource (resources (players g' ! j)) r
              = map_option (\<lambda>v. v + (if tileProduces ?B' ?V k r then 1 else 0))
                  (getResource (resources ?p) r)"
        unfolding pj collectFromDiceRoll_resources col count_producedBy ..
    next
      fix j
      assume "j < length (players g)" "die1 + die2 = 7"
      with seven show "if 7 < getTotalResources (players g ! j)
                       then getTotalResources (players g' ! j)
                              = getTotalResources (players g ! j)
                                - getTotalResources (players g ! j) div 2
                            \<and> noGain (players g ! j) (players g' ! j)
                       else players g' ! j = players g ! j"
        by simp
    qed
    from r len each
    show "\<exists>g'. rollDice die1 die2 g = Some (Inr (Some (die1, die2, die1 + die2), g'))
              \<and> length (players g') = length (players g)
              \<and> (\<forall>j < length (players g).
                   (die1 + die2 \<noteq> 7 \<and> boardOfPiece g ?s' = ?B'
                      \<and> settlements (players g ! j) = [?s'] \<and> cities (players g ! j) = [] \<longrightarrow>
                      (\<forall>r. getResource (resources (players g' ! j)) r
                             = map_option
                                 (\<lambda>v. v + (if tileProduces ?B' (die1 + die2) k r then 1 else 0))
                                 (getResource (resources (players g ! j)) r)))
                 \<and> (die1 + die2 = 7 \<longrightarrow>
                      (if 7 < getTotalResources (players g ! j)
                       then getTotalResources (players g' ! j)
                              = getTotalResources (players g ! j)
                                - getTotalResources (players g ! j) div 2
                            \<and> noGain (players g ! j) (players g' ! j)
                       else players g' ! j = players g ! j)))"
      by (intro exI[of _ g'] conjI)
  qed
  have again: "\<forall>g rs2 pc. piece_id pc < nextPieceId g \<longrightarrow>
           boardOfPiece (snd (startGame rs2 g)) pc = boardOfPiece g pc"
    by (simp add: boardOfPiece_startGame)
  from p a pl cnt roll again show ?thesis by (intro exI[of _ ?s'] exI[of _ ?B'] conjI)
qed

lemma settlerGame_facts:
  "gamePhase (settlerGame b s) = Playing" "\<not> hasRolledDice (settlerGame b s)"
  "getCurrentPlayer (settlerGame b s) = Some 0" "boardOfPiece (settlerGame b s) s = b"
  "length (players (settlerGame b s)) = 2"
  "settlements (players (settlerGame b s) ! 0) = [s]" "cities (players (settlerGame b s) ! 0) = []"
  "getResource (resources (players (settlerGame b s) ! 0)) ''grain'' = Some 0"
  by (simp_all add: settlerGame_def newGame_def getCurrentPlayer_def boardOfPiece_def
        newPlayer_def getResource_def)

theorem buildings_collect_from_one_tile_witness:
  "\<exists>s' B' g'.
      vertex_placeSettlement (newPiece 1 1 Settlement) (2, -1, 4)
          (fst (generateStandardBoard [] newBoard)) = Some (s', B')
      \<and> hexesOfPiece B' s' = [(1, 0)]
      \<and> rollDice 2 3 (settlerGame B' s') = Some (Inr (Some (2, 3, 5), g'))
      \<and> getResource (resources (players g' ! 0)) ''grain''
            = Some (if tileProduces B' 5 (1, 0) ''grain'' then 1 else 0)"
proof -
  have k: "(1, 0) \<in> set hexLayout" by (simp add: hexLayout_def)
  have c: "(2, -1, 4) \<in> set (cornerKeys (1, 0))" by (simp add: cornerKeys_def vertexOffsets_def)
  from buildings_collect_from_one_tile[where s = "newPiece 1 1 Settlement",
      OF generateStandardBoard_result[of "[]" newBoard] k c]
  obtain s' B' where p: "vertex_placeSettlement (newPiece 1 1 Settlement) (2, -1, 4)
          (fst (generateStandardBoard [] newBoard)) = Some (s', B')"
    and a: "\<forall>pc roll. placedAt pc = Some (2, -1, 4) \<longrightarrow>
           hexesOfPiece B' pc = [(1, 0)]
           \<and> settlement_collectResources B' roll pc = producedBy B' roll (1, 0)
           \<and> city_collectResources B' roll pc
                = concat (map (\<lambda>r. [r, r]) (producedBy B' roll (1, 0)))"
    and pl: "placedAt s' = Some (2, -1, 4)"
    and roll: "\<forall>g i die1 die2.
           gamePhase g = Playing \<and> \<not> hasRolledDice g \<and> getCurrentPlayer g = Some i \<longrightarrow>
           (\<exists>g'. rollDice die1 die2 g = Some (Inr (Some (die1, die2, die1 + die2), g'))
              \<and> length (players g') = length (players g)
              \<and> (\<forall>j < length (players g).
                   (die1 + die2 \<noteq> 7 \<and> boardOfPiece g s' = B'
                      \<and> settlements (players g ! j) = [s'] \<and> cities (players g ! j) = [] \<longrightarrow>
                      (\<forall>r. getResource (resources (players g' ! j)) r
                             = map_option
                                 (\<lambda>v. v + (if tileProduces B' (die1 + die2) (1, 0) r then 1 else 0))
                                 (getResource (resources (players g ! j)) r)))
                 \<and> (die1 + die2 = 7 \<longrightarrow>
                      (if 7 < getTotalResources (players g ! j)
                       then getTotalResources (players g' ! j)
                              = getTotalResources (players g ! j)
                                - getTotalResources (players g ! j) div 2
                            \<and> noGain (players g ! j) (players g' ! j)
                       else players g' ! j = players g ! j))))"
    by (elim exE conjE)
  note f = settlerGame_facts[of B' s']
  from a pl have hx: "hexesOfPiece B' s' = [(1, 0)]" by simp
  from roll[rule_format, of "settlerGame B' s'" 0 2 3] f(1-3)
  obtain g' where r: "rollDice 2 3 (settlerGame B' s') = Some (Inr (Some (2, 3, 2 + 3), g'))"
    and e: "\<forall>j < length (players (settlerGame B' s')).
                   ((2::int) + 3 \<noteq> 7 \<and> boardOfPiece (settlerGame B' s') s' = B'
                      \<and> settlements (players (settlerGame B' s') ! j) = [s']
                      \<and> cities (players (settlerGame B' s') ! j) = [] \<longrightarrow>
                      (\<forall>r. getResource (resources (players g' ! j)) r
                             = map_option
                                 (\<lambda>v. v + (if tileProduces B' (2 + 3) (1, 0) r then 1 else 0))
                                 (getResource (resources (players (settlerGame B' s') ! j)) r)))"
    by auto
  from e[rule_format, of 0] f(4-7)
  have "getResource (resources (players g' ! 0)) ''grain''
      = map_option (\<lambda>v. v + (if tileProduces B' (2 + 3) (1, 0) ''grain'' then 1 else 0))
          (getResource (resources (players (settlerGame B' s') ! 0)) ''grain'')"
    by simp
  then have "getResource (resources (players g' ! 0)) ''grain''
      = Some (if tileProduces B' 5 (1, 0) ''grain'' then 1 else 0)"
    by (simp add: f(8))
  with p hx r show ?thesis by (intro exI[of _ s'] exI[of _ B'] exI[of _ g'] conjI) simp_all
qed

end
